theory Spec2Isabelle
  imports Complex_Main "HOL-Library.AList" "HOL-Library.Sublist" "HOL-Library.Log_Nat"
begin

section \<open>Python values and strings\<close>

text \<open>
  The metadata dictionary \<open>d\<close> of \<open>read_metadata\<close> holds four kinds of Python values:
  \<open>str\<close>, \<open>int\<close>, \<open>bool\<close> and \<open>float\<close>. A \<open>float\<close> is an IEEE binary64 number; it is
  represented by the rational it denotes (only finite floats occur here).
\<close>

datatype pyval = VStr string | VInt int | VBool bool | VFloat rat

text \<open>
  The exceptions the code can raise, one constructor per raising site:
  \<^item> \<open>ClientError\<close>: \<open>download_file\<close> fails;
  \<^item> \<open>InvalidTiff\<close>: \<open>tifffile.TiffFile\<close> rejects the file (a \<open>ValueError\<close>);
  \<^item> \<open>UnicodeDecodeError\<close>: \<open>tag.value.decode('ASCII')\<close> meets a byte above 127;
  \<^item> \<open>UnpackValueError\<close>: \<open>key, value = item.split('=')\<close> gets fewer or more than two
    parts (a \<open>ValueError\<close>);
  \<^item> \<open>IntValueError\<close>: \<open>int(value)\<close> on a string that is no integer literal (a \<open>ValueError\<close>);
  \<^item> \<open>IndexError\<close>: \<open>tag.value[0]\<close> on an empty sequence;
  \<^item> \<open>AttributeError\<close>: \<open>tag.value.decode\<close> on a value that is no \<open>bytes\<close> object;
  \<^item> \<open>TypeError\<close>: \<open>tag.value[0]\<close> on a value that cannot be indexed;
  \<^item> \<open>OverflowError\<close>: \<open>float(n)\<close> on an integer beyond the range of binary64;
  \<^item> \<open>InfoError\<close>: an exception from inside \<open>tif.info()\<close>.
\<close>

datatype error =
    ClientError | InvalidTiff | UnicodeDecodeError | UnpackValueError | IntValueError
  | IndexError | AttributeError | TypeError | OverflowError | InfoError

text \<open>\<open>s.split(c)\<close> for a one-character separator: never empty, one more part than separators.\<close>

fun split_on :: "char \<Rightarrow> string \<Rightarrow> string list" where
  "split_on c [] = [[]]"
| "split_on c (x # xs) =
     (if x = c then [] # split_on c xs
      else case split_on c xs of
             [] \<Rightarrow> [[x]]
           | w # ws \<Rightarrow> (x # w) # ws)"

text \<open>\<open>bytes.decode('ASCII')\<close>: every byte must be below 128.\<close>

definition decode_ascii :: "string \<Rightarrow> error + string" where
  "decode_ascii b = (if \<forall>c \<in> set b. (of_char c :: nat) < 128 then Inr b else Inl UnicodeDecodeError)"

text \<open>
  \<open>int(s)\<close> in base 10 on an ASCII string: surrounding ASCII whitespace (tab, newline,
  vertical tab, form feed, carriage return, space) is stripped, one sign is allowed, then
  decimal digits, where single underscores may stand between digits. The separators
  \<open>0x1c\<close> to \<open>0x1f\<close>, though \<open>str.isspace\<close> accepts them, are not stripped.
\<close>

definition py_isspace :: "char \<Rightarrow> bool" where
  "py_isspace c = ((of_char c :: nat) \<in> {9, 10, 11, 12, 13, 32})"

definition py_strip :: "string \<Rightarrow> string" where
  "py_strip s = rev (dropWhile py_isspace (rev (dropWhile py_isspace s)))"

definition is_digit :: "char \<Rightarrow> bool" where
  "is_digit c = (48 \<le> (of_char c :: nat) \<and> (of_char c :: nat) \<le> 57)"

definition digit_val :: "char \<Rightarrow> int" where
  "digit_val c = int (of_char c) - 48"

fun digits_acc :: "int \<Rightarrow> bool \<Rightarrow> string \<Rightarrow> int option" where
  "digits_acc a p [] = (if p then Some a else None)"
| "digits_acc a p (c # cs) =
     (if is_digit c then digits_acc (10 * a + digit_val c) True cs
      else if c = CHR ''_'' \<and> p then digits_acc a False cs
      else None)"

definition py_int :: "string \<Rightarrow> error + int" where
  "py_int s =
     (let t = py_strip s;
          neg = (t \<noteq> [] \<and> hd t = CHR ''-'');
          body = (if t \<noteq> [] \<and> (hd t = CHR ''-'' \<or> hd t = CHR ''+'') then tl t else t)
      in case digits_acc 0 False body of
           None \<Rightarrow> Inl IntValueError
         | Some n \<Rightarrow> Inr (if neg then - n else n))"

text \<open>\<open>bool(s)\<close> on a string: true exactly for the non-empty ones.\<close>

definition py_bool :: "string \<Rightarrow> bool" where
  "py_bool s = (s \<noteq> [])"

subsection \<open>Floats\<close>

text \<open>
  Rounding of a rational to the nearest binary64 number, ties to even: the binary exponent
  \<open>e\<close> of \<open>|q|\<close> (at least \<open>-1022\<close>, below which numbers are subnormal) gives the spacing
  \<open>2 ^ (e - 52)\<close> of the floats around \<open>q\<close>.
\<close>

definition round_half_even :: "rat \<Rightarrow> int" where
  "round_half_even q =
     (let f = \<lfloor>q\<rfloor>; r = q - of_int f
      in if r < 1 / 2 then f else if 1 / 2 < r then f + 1 else if even f then f else f + 1)"

definition binexp :: "rat \<Rightarrow> int" where
  "binexp q =
     (let (n, d) = quotient_of q; e0 = bitlen n - bitlen d
      in if 2 powi e0 \<le> q then e0 else e0 - 1)"

definition round_double :: "rat \<Rightarrow> rat" where
  "round_double q =
     (if q = 0 then 0
      else let a = \<bar>q\<bar>; e = max (binexp a) (- 1022); ulp = 2 powi (e - 52)
           in sgn q * of_int (round_half_even (a / ulp)) * ulp)"

text \<open>\<open>float(n)\<close> on an integer: correctly rounded, \<open>OverflowError\<close> beyond the largest float.\<close>

definition py_float :: "int \<Rightarrow> error + rat" where
  "py_float n =
     (let r = round_double (of_int n)
      in if 2 ^ 1024 \<le> \<bar>r\<bar> then Inl OverflowError else Inr r)"

text \<open>
  \<open>x / y\<close> on floats with \<open>1 \<le> |y|\<close>: the correctly rounded quotient. The quotient is no
  larger than \<open>x\<close> in magnitude, so it is finite and no infinity arises.
\<close>

definition py_truediv :: "rat \<Rightarrow> rat \<Rightarrow> rat" where
  "py_truediv x y = round_double (x / y)"

section \<open>The metadata dictionary\<close>

text \<open>
  A Python \<open>dict\<close> with string keys, in insertion order: \<open>d[k] = v\<close> replaces the value of
  a key that is present, in place, and appends a new key at the end, which is
  \<^const>\<open>AList.update\<close>; \<open>d[k]\<close> is \<^const>\<open>map_of\<close>.
\<close>

type_synonym dict = "(string \<times> pyval) list"

section \<open>Tags of a TIFF file\<close>

text \<open>
  A tag as \<open>tifffile\<close> hands it over: its name and its value. The code looks at a value in
  three ways: it decodes it (a \<open>bytes\<close> object, for \<open>image_description\<close>), it takes its first
  element (a tuple of integers, for \<open>strip_byte_counts\<close>), or it renders it with \<open>str\<close>.
  The rendering \<open>str(tag.value)\<close> comes with the tag, \<open>tifffile\<close>'s value classes not
  being part of this program.
\<close>

datatype tag_value = Bytes string | Tuple "int list" | Other

record tiff_tag =
  name :: string
  "value" :: tag_value
  str_value :: string

text \<open>The file at a path: rejected by \<open>tifffile.TiffFile\<close>, or a sequence of pages of tags.\<close>

datatype tiff_file = NotTiff | Tiff "tiff_tag list list"

section \<open>\<open>read_metadata\<close>\<close>

text \<open>
  One line of the image description:
  \<^verbatim>\<open>
    key, value = item.split('=')
    if key in ['images','channels','slices']: d[key] = int(value)
    elif key == 'hyperstack':                 d[key] = bool(value)
    else:                                     d[key] = value
  \<close>
\<close>

definition read_item :: "dict \<Rightarrow> string \<Rightarrow> error + dict" where
  "read_item d item =
     (case split_on CHR ''='' item of
        [key, val] \<Rightarrow>
          if key \<in> set [''images'', ''channels'', ''slices''] then
            (case py_int val of
               Inl e \<Rightarrow> Inl e
             | Inr n \<Rightarrow> Inr (AList.update key (VInt n) d))
          else if key = ''hyperstack'' then Inr (AList.update key (VBool (py_bool val)) d)
          else Inr (AList.update key (VStr val) d)
      | _ \<Rightarrow> Inl UnpackValueError)"

text \<open>\<open>for item in ...\<close>: the first exception ends the loop.\<close>

fun read_items :: "dict \<Rightarrow> string list \<Rightarrow> error + dict" where
  "read_items d [] = Inr d"
| "read_items d (item # items) =
     (case read_item d item of Inl e \<Rightarrow> Inl e | Inr d' \<Rightarrow> read_items d' items)"

text \<open>
  One tag:
  \<^verbatim>\<open>
    if tag.name == 'image_description':
        for item in tag.value.decode('ASCII').split('\n')[:-1]: ...
    else:
        if tag.name == 'strip_byte_counts':
            d['sizeInGB'] = float(tag.value[0])/1000000000.
        else:
            d[tag.name] = str(tag.value)
  \<close>
  \<open>tifffile\<close> gives \<open>image_description\<close> a \<open>bytes\<close> value and \<open>strip_byte_counts\<close> a tuple;
  the other branches say what Python does with a value of another shape (the first byte of
  a \<open>bytes\<close> object is an integer).
\<close>

definition read_tag :: "dict \<Rightarrow> tiff_tag \<Rightarrow> error + dict" where
  "read_tag d tag =
     (if name tag = ''image_description'' then
        (case value tag of
           Bytes b \<Rightarrow>
             (case decode_ascii b of
                Inl e \<Rightarrow> Inl e
              | Inr s \<Rightarrow> read_items d (butlast (split_on CHR ''\<newline>'' s)))
         | _ \<Rightarrow> Inl AttributeError)
      else if name tag = ''strip_byte_counts'' then
        (case (case value tag of
                 Tuple [] \<Rightarrow> Inl IndexError
               | Tuple (n # _) \<Rightarrow> py_float n
               | Bytes [] \<Rightarrow> Inl IndexError
               | Bytes (c # _) \<Rightarrow> py_float (int (of_char c))
               | Other \<Rightarrow> Inl TypeError) of
           Inl e \<Rightarrow> Inl e
         | Inr x \<Rightarrow> Inr (AList.update ''sizeInGB'' (VFloat (py_truediv x 1000000000)) d))
      else Inr (AList.update (name tag) (VStr (str_value tag)) d))"

text \<open>\<open>for tag in page.tags.values()\<close> and \<open>for page in tif\<close>.\<close>

fun read_tags :: "dict \<Rightarrow> tiff_tag list \<Rightarrow> error + dict" where
  "read_tags d [] = Inr d"
| "read_tags d (tag # tags) =
     (case read_tag d tag of Inl e \<Rightarrow> Inl e | Inr d' \<Rightarrow> read_tags d' tags)"

fun read_pages :: "dict \<Rightarrow> tiff_tag list list \<Rightarrow> error + dict" where
  "read_pages d [] = Inr d"
| "read_pages d (page # pages) =
     (case read_tags d page of Inl e \<Rightarrow> Inl e | Inr d' \<Rightarrow> read_pages d' pages)"

definition read_metadata :: "tiff_file \<Rightarrow> error + dict" where
  "read_metadata file =
     (case file of
        NotTiff \<Rightarrow> Inl InvalidTiff
      | Tiff pages \<Rightarrow> read_pages [] pages)"

section \<open>\<open>process_tif\<close>\<close>

text \<open>\<open>os.path.join\<close> of two POSIX paths.\<close>

definition path_join :: "string \<Rightarrow> string \<Rightarrow> string" where
  "path_join a b =
     (if b \<noteq> [] \<and> hd b = CHR ''/'' then b
      else if a = [] \<or> last a = CHR ''/'' then a @ b
      else a @ ''/'' @ b)"

definition METADATA :: string where
  "METADATA = path_join ''data'' ''metadata''"

text \<open>
  \<^verbatim>\<open>os.path.join(METADATA, label.split('/')[-1].split('.')[0] + '_metadata.txt')\<close>
\<close>

definition metadata_filename :: "string \<Rightarrow> string" where
  "metadata_filename label =
     path_join METADATA
       (hd (split_on CHR ''.'' (last (split_on CHR ''/'' label))) @ ''_metadata.txt'')"

text \<open>
  The small dictionary with the six important fields, a missing one being \<open>None\<close>:
  \<^verbatim>\<open>
    for key in ['image_width','image_length','channels','slices', 'hyperstack', 'sizeInGB']:
        if key in d.keys(): small_d[key] = d[key]
        else:               small_d[key] = None
  \<close>
\<close>

definition important_keys :: "string list" where
  "important_keys =
     [''image_width'', ''image_length'', ''channels'', ''slices'', ''hyperstack'', ''sizeInGB'']"

fun small_dict :: "dict \<Rightarrow> (string \<times> pyval option) list \<Rightarrow> string list
    \<Rightarrow> (string \<times> pyval option) list" where
  "small_dict d small_d [] = small_d"
| "small_dict d small_d (key # keys) =
     (if key \<in> fst ` set d then small_dict d (AList.update key (map_of d key) small_d) keys
      else small_dict d (AList.update key None small_d) keys)"

text \<open>
  A one-row data frame: the index label and the columns in order. The files under
  \<open>METADATA\<close> are a map from path to the dictionary that \<open>json.dump\<close> wrote there (the JSON
  text itself is not modelled). Failures of the local file system are not modelled.
\<close>

type_synonym dataframe = "string \<times> (string \<times> pyval option) list"

type_synonym archive = "string \<rightharpoonup> dict"

definition process_tif :: "archive \<Rightarrow> tiff_file \<Rightarrow> string \<Rightarrow> error + (dataframe \<times> archive)" where
  "process_tif files file label =
     (case read_metadata file of
        Inl e \<Rightarrow> Inl e
      | Inr d \<Rightarrow>
          Inr ((label, small_dict d [] important_keys),
               files(metadata_filename label \<mapsto> d)))"

section \<open>The loop over the bucket\<close>

definition exclude_list :: "string list" where
  "exclude_list = [''Lepto_fovea'', ''Lepto_head_lowres'', ''Holco_Scan53_fly1'']"

text \<open>
  \<^verbatim>\<open>
    exclude = False
    for name in exclude_list:
        if name in file.key: exclude = True
  \<close>
\<close>

fun exclude_loop :: "string \<Rightarrow> bool \<Rightarrow> string list \<Rightarrow> bool" where
  "exclude_loop key exclude [] = exclude"
| "exclude_loop key exclude (n # names) =
     (if sublist n key then exclude_loop key True names else exclude_loop key exclude names)"

text \<open>
  The inventory file: its header line (the column names) and its rows, each the label
  followed by the cells. \<open>df.to_csv(INVENTORY_FILE)\<close> writes a new file with header;
  \<open>df.to_csv(INVENTORY_FILE, mode = 'a', header = None)\<close> appends the row only.
\<close>

type_synonym csv_row = "string \<times> pyval option list"

type_synonym csv_file = "string list \<times> csv_row list"

definition to_csv :: "dataframe \<Rightarrow> csv_file" where
  "to_csv df = (map fst (snd df), [(fst df, map snd (snd df))])"

definition to_csv_append :: "dataframe \<Rightarrow> csv_file \<Rightarrow> csv_file" where
  "to_csv_append df file = (fst file, snd file @ [(fst df, map snd (snd df))])"

text \<open>
  The state the loop works on: the two global lists, the calls of \<open>download_file\<close> made so
  far, the number of temporary files created (each is deleted when its \<open>with\<close> block is
  left), the inventory file (\<open>None\<close> while it does not exist) and the files under
  \<open>METADATA\<close>. The bucket maps a key to the file that \<open>download_file\<close> fetches, \<open>None\<close> when
  the download fails.
\<close>

record batch_state =
  tif_files :: "string list"
  tif_files_done :: "string list"
  downloads :: "string list"
  tempfiles :: nat
  inventory :: "csv_file option"
  metadata_files :: archive

type_synonym bucket = "string \<Rightarrow> tiff_file option"

text \<open>The cell \<open>tif_files = []; tif_files_done = []\<close> that starts a run.\<close>

definition init_lists :: "batch_state \<Rightarrow> batch_state" where
  "init_lists s = s\<lparr>tif_files := [], tif_files_done := []\<rparr>"

text \<open>
  The body of \<open>for file in files\<close>, for one key. No statement of the loop catches an
  exception: the result carries the exception that leaves the loop, with the state as it
  is then.

  Between opening the file and \<open>process_tif\<close> the loop runs \<open>print(tif.info())\<close>. The
  method \<open>info\<close> belongs to \<open>tifffile\<close>, not to this program, and is a parameter here:
  \<open>info file\<close> is the exception that the call raises on the file, \<open>None\<close> when it returns
  the text that is printed.
\<close>

type_synonym tiff_info = "tiff_file \<Rightarrow> error option"

definition process_key ::
    "tiff_info \<Rightarrow> bucket \<Rightarrow> batch_state \<Rightarrow> string \<Rightarrow> batch_state \<times> error option" where
  "process_key info B s key =
     (if exclude_loop key False exclude_list then (s, None)
      else if \<not> suffix ''tif'' key then (s, None)
      else
        let s1 = s\<lparr>tif_files := tif_files s @ [key], tempfiles := Suc (tempfiles s)\<rparr>
        in if key \<in> set (tif_files_done s1) then (s1, None)
           else
             let s2 = s1\<lparr>downloads := downloads s1 @ [key]\<rparr>
             in case B key of
                  None \<Rightarrow> (s2, Some ClientError)
                | Some NotTiff \<Rightarrow> (s2, Some InvalidTiff)
                | Some (Tiff pages) \<Rightarrow>
                    (case info (Tiff pages) of
                       Some e \<Rightarrow> (s2, Some e)
                     | None \<Rightarrow>
                         (case process_tif (metadata_files s2) (Tiff pages) key of
                            Inl e \<Rightarrow> (s2, Some e)
                          | Inr (df, files') \<Rightarrow>
                              (s2\<lparr>metadata_files := files',
                                  inventory :=
                                    Some (case inventory s2 of
                                            Some csv \<Rightarrow> to_csv_append df csv
                                          | None \<Rightarrow> to_csv df),
                                  tif_files_done := tif_files_done s2 @ [key]\<rparr>,
                               None))))"

fun batch ::
    "tiff_info \<Rightarrow> bucket \<Rightarrow> batch_state \<Rightarrow> string list \<Rightarrow> batch_state \<times> error option" where
  "batch info B s [] = (s, None)"
| "batch info B s (key # keys) =
     (case process_key info B s key of
        (s', Some e) \<Rightarrow> (s', Some e)
      | (s', None) \<Rightarrow> batch info B s' keys)"

section \<open>Notions used in the statements\<close>

text \<open>The key that a line of the image description assigns to, when it has one.\<close>

definition item_key :: "string \<Rightarrow> string" where
  "item_key item = hd (split_on CHR ''='' item)"

text \<open>
  Whether processing a tag may assign to key \<open>k\<close> of the dictionary: a line of the image
  description with that key, the byte counts for \<open>sizeInGB\<close>, any other tag for its own name.
\<close>

definition writes_key :: "string \<Rightarrow> tiff_tag \<Rightarrow> bool" where
  "writes_key k tag =
     (if name tag = ''image_description'' then
        (case value tag of
           Bytes b \<Rightarrow> k \<in> item_key ` set (butlast (split_on CHR ''\<newline>'' b))
         | _ \<Rightarrow> False)
      else if name tag = ''strip_byte_counts'' then k = ''sizeInGB''
      else k = name tag)"

text \<open>
  The archive name in the words of the specification: the last path segment of the label
  with its extension (what follows the last dot, and that dot) stripped, and the suffix
  appended.
\<close>

definition strip_extension :: "string \<Rightarrow> string" where
  "strip_extension seg =
     (if CHR ''.'' \<in> set seg then rev (tl (dropWhile (\<lambda>c. c \<noteq> CHR ''.'') (rev seg))) else seg)"

definition spec_archive_name :: "string \<Rightarrow> string" where
  "spec_archive_name label =
     strip_extension (last (split_on CHR ''/'' label)) @ ''_metadata.txt''"

text \<open>The rows of the inventory file, and those of one label.\<close>

definition inventory_rows :: "batch_state \<Rightarrow> csv_row list" where
  "inventory_rows s = (case inventory s of None \<Rightarrow> [] | Some csv \<Rightarrow> snd csv)"

definition rows_of :: "string \<Rightarrow> batch_state \<Rightarrow> csv_row list" where
  "rows_of k s = filter (\<lambda>r. fst r = k) (inventory_rows s)"

text \<open>The download calls made for one key.\<close>

definition downloads_of :: "string \<Rightarrow> batch_state \<Rightarrow> string list" where
  "downloads_of k s = filter (\<lambda>x. x = k) (downloads s)"

section \<open>Sample inputs\<close>

text \<open>
  An ImageJ stack of one page, its tags in the order of the file; the same with a
  description whose first line has no \<open>=\<close>; a bucket holding both; and the state before
  anything has run. (\<open>str_value\<close> of a description tag is left empty: it is never read.)
\<close>

definition sample_stack :: tiff_file where
  "sample_stack = Tiff [[
     \<lparr>name = ''image_width'', value = Other, str_value = ''2048''\<rparr>,
     \<lparr>name = ''image_length'', value = Other, str_value = ''1024''\<rparr>,
     \<lparr>name = ''image_description'',
      value = Bytes ''ImageJ=1.51h\<newline>images=30\<newline>channels=3\<newline>slices=10\<newline>hyperstack=true\<newline>'',
      str_value = []\<rparr>,
     \<lparr>name = ''strip_offsets'', value = Tuple [8], str_value = ''(8,)''\<rparr>,
     \<lparr>name = ''strip_byte_counts'', value = Tuple [1159201000], str_value = ''(1159201000,)''\<rparr>]]"

definition broken_stack :: tiff_file where
  "broken_stack = Tiff [[
     \<lparr>name = ''image_width'', value = Other, str_value = ''2048''\<rparr>,
     \<lparr>name = ''image_length'', value = Other, str_value = ''1024''\<rparr>,
     \<lparr>name = ''image_description'',
      value = Bytes ''ImageJ\<newline>images=30\<newline>'', str_value = []\<rparr>,
     \<lparr>name = ''strip_offsets'', value = Tuple [8], str_value = ''(8,)''\<rparr>,
     \<lparr>name = ''strip_byte_counts'', value = Tuple [1159201000], str_value = ''(1159201000,)''\<rparr>]]"

text \<open>
  On the two sample files \<open>tif.info()\<close> returns; \<open>raising_info\<close> is for a version of
  \<open>tifffile\<close> whose \<open>info\<close> raises on them.
\<close>

definition sample_info :: tiff_info where
  "sample_info file = None"

definition raising_info :: tiff_info where
  "raising_info file = Some InfoError"

definition sample_bucket :: bucket where
  "sample_bucket key =
     (if key = ''Scan049/broken.tif'' then Some broken_stack
      else if key = ''Scan050/Fused.tif'' then Some sample_stack
      else None)"

definition empty_state :: batch_state where
  "empty_state =
     \<lparr>tif_files = [], tif_files_done = [], downloads = [], tempfiles = 0,
      inventory = None, metadata_files = Map.empty\<rparr>"

text \<open>
  The dictionary and the inventory row of the sample stack, and the state after a run over
  the key of the sample stack alone.
\<close>

definition sample_row :: csv_row where
  "sample_row = (''Scan050/Fused.tif'',
     [Some (VStr ''2048''), Some (VStr ''1024''), Some (VInt 3), Some (VInt 10),
      Some (VBool True), Some (VFloat (round_double (1159201 / 1000000)))])"

definition sample_dict :: dict where
  "sample_dict =
     [(''image_width'', VStr ''2048''), (''image_length'', VStr ''1024''),
      (''ImageJ'', VStr ''1.51h''), (''images'', VInt 30), (''channels'', VInt 3),
      (''slices'', VInt 10), (''hyperstack'', VBool True), (''strip_offsets'', VStr ''(8,)''),
      (''sizeInGB'', VFloat (round_double (1159201 / 1000000)))]"

definition populated_state :: batch_state where
  "populated_state =
     \<lparr>tif_files = [''Scan050/Fused.tif''], tif_files_done = [''Scan050/Fused.tif''],
      downloads = [''Scan050/Fused.tif''], tempfiles = 1,
      inventory = Some (important_keys, [sample_row]),
      metadata_files = [''data/metadata/Fused_metadata.txt'' \<mapsto> sample_dict]\<rparr>"

section \<open>Strings\<close>

lemma split_on_notin: "c \<notin> set a \<Longrightarrow> split_on c a = [a]"
  by (induction a) auto

lemma split_on_not_Nil: "split_on c s \<noteq> []"
  by (induction s) (auto split: list.splits)

lemma hd_split_on: "hd (split_on c s) = takeWhile (\<lambda>x. x \<noteq> c) s"
  by (induction s) (auto split: list.splits simp: split_on_not_Nil)

lemma butlast_split_on: "c \<notin> set t \<Longrightarrow> butlast (split_on c (s @ c # t)) = split_on c s"
  by (induction s) (auto split: list.splits simp: split_on_not_Nil split_on_notin)

section \<open>Reading the tags\<close>

lemma read_item_no_sep: "CHR ''='' \<notin> set item \<Longrightarrow> read_item d item = Inl UnpackValueError"
  by (simp add: read_item_def split_on_notin)

lemma read_items_append:
  "read_items d (xs @ ys) = (case read_items d xs of Inl e \<Rightarrow> Inl e | Inr d' \<Rightarrow> read_items d' ys)"
  by (induction xs arbitrary: d) (auto split: sum.splits)

lemma read_tags_append:
  "read_tags d (xs @ ys) = (case read_tags d xs of Inl e \<Rightarrow> Inl e | Inr d' \<Rightarrow> read_tags d' ys)"
  by (induction xs arbitrary: d) (auto split: sum.splits)

lemma read_pages_concat: "read_pages d pages = read_tags d (concat pages)"
  by (induction pages arbitrary: d) (auto simp: read_tags_append split: sum.splits)

lemma read_items_fails:
  "item \<in> set items \<Longrightarrow> CHR ''='' \<notin> set item \<Longrightarrow> \<exists>e. read_items d items = Inl e"
  by (induction items arbitrary: d) (auto split: sum.splits simp: read_item_no_sep)

lemma read_item_other_key:
  "read_item d item = Inr d' \<Longrightarrow> item_key item \<noteq> k \<Longrightarrow> map_of d' k = map_of d k"
  by (auto simp: read_item_def item_key_def update_conv' split: list.splits if_splits sum.splits)

lemma read_items_other_key:
  "read_items d items = Inr d' \<Longrightarrow> k \<notin> item_key ` set items \<Longrightarrow> map_of d' k = map_of d k"
proof (induction items arbitrary: d)
  case Nil
  then show ?case by simp
next
  case (Cons item items)
  from Cons.prems(1) obtain d1 where 1: "read_item d item = Inr d1" and 2: "read_items d1 items = Inr d'"
    by (auto split: sum.splits)
  have "map_of d1 k = map_of d k" using 1 Cons.prems(2) by (auto intro: read_item_other_key)
  moreover have "map_of d' k = map_of d1 k" using Cons.IH[OF 2] Cons.prems(2) by simp
  ultimately show ?case by simp
qed

lemma read_tag_other_key:
  "read_tag d tag = Inr d' \<Longrightarrow> \<not> writes_key k tag \<Longrightarrow> map_of d' k = map_of d k"
  by (auto simp: read_tag_def writes_key_def decode_ascii_def update_conv'
        split: if_splits tag_value.splits sum.splits list.splits
        dest: read_items_other_key)

lemma read_tags_other_key:
  "read_tags d tags = Inr d' \<Longrightarrow> \<forall>t \<in> set tags. \<not> writes_key k t \<Longrightarrow> map_of d' k = map_of d k"
proof (induction tags arbitrary: d)
  case Nil
  then show ?case by simp
next
  case (Cons t tags)
  from Cons.prems(1) obtain d1 where 1: "read_tag d t = Inr d1" and 2: "read_tags d1 tags = Inr d'"
    by (auto split: sum.splits)
  have "map_of d1 k = map_of d k" using 1 Cons.prems(2) by (auto intro: read_tag_other_key)
  moreover have "map_of d' k = map_of d1 k" using Cons.IH[OF 2] Cons.prems(2) by simp
  ultimately show ?case by simp
qed

section \<open>Floats\<close>

lemma round_half_even_of_int: "round_half_even (of_int m) = m"
  by (simp add: round_half_even_def)

lemma binexp_of_int:
  assumes "0 < n"
  shows "binexp (of_int n) = bitlen n - 1"
proof -
  have b1: "bitlen 1 = 1" by (simp add: compute_bitlen)
  have ge: "1 \<le> bitlen n" using assms by (simp add: bitlen_alt_def)
  have "(2::int) ^ nat (bitlen n - 1) \<le> n" using bitlen_bounds[OF assms] by simp
  then have "rat_of_int (2 ^ nat (bitlen n - 1)) \<le> rat_of_int n" by (simp only: of_int_le_iff)
  then have "(2::rat) powi (bitlen n - 1) \<le> of_int n" using ge by (simp add: power_int_def)
  then show ?thesis by (simp add: binexp_def b1)
qed

lemma round_double_of_int:
  assumes "0 < n" and "n < 2 ^ 53"
  shows "round_double (of_int n) = of_int n"
proof -
  define e where "e = bitlen n - 1"
  define k where "k = nat (52 - e)"
  have ge: "0 \<le> e" using assms(1) by (simp add: e_def bitlen_alt_def)
  have "bitlen n \<le> 53" using assms(2) by (simp add: bitlen_le_iff_power)
  then have le: "e \<le> 52" by (simp add: e_def)
  have ulp: "(2::rat) powi (e - 52) = inverse (2 ^ k)"
    using le by (simp add: power_int_def k_def power_one_over inverse_eq_divide)
  have "rat_of_int n / inverse (2 ^ k) = of_int (n * 2 ^ k)" by (simp add: divide_inverse)
  then have r: "round_half_even (rat_of_int n / inverse (2 ^ k)) = n * 2 ^ k"
    by (simp only: round_half_even_of_int)
  have "max (binexp (of_int n)) (- 1022) = e"
    using ge by (simp add: binexp_of_int[OF assms(1)] e_def)
  then show ?thesis using assms(1) by (simp add: round_double_def Let_def ulp r)
qed

lemma py_float_exact:
  assumes "0 \<le> n" and "n < 2 ^ 53"
  shows "py_float n = Inr (of_int n)"
proof (cases "n = 0")
  case True
  then show ?thesis by (simp add: py_float_def round_double_def)
next
  case False
  then have pos: "0 < n" using assms(1) by simp
  have "rat_of_int n < rat_of_int (2 ^ 53)" using assms(2) by (simp only: of_int_less_iff)
  also have "\<dots> < 2 ^ 1024" by simp
  finally have "\<not> 2 ^ 1024 \<le> \<bar>rat_of_int n\<bar>" using pos by simp
  then show ?thesis by (simp add: py_float_def Let_def round_double_of_int[OF pos assms(2)])
qed

section \<open>One key of the loop\<close>

lemma exclude_loop_iff: "exclude_loop key e names \<longleftrightarrow> e \<or> (\<exists>n \<in> set names. sublist n key)"
  by (induction names arbitrary: e) auto

lemma process_key_filtered:
  "exclude_loop key False exclude_list \<or> \<not> suffix ''tif'' key \<Longrightarrow> process_key info B s key = (s, None)"
  by (auto simp: process_key_def)

lemma process_key_done:
  "\<not> exclude_loop key False exclude_list \<Longrightarrow> suffix ''tif'' key \<Longrightarrow> key \<in> set (tif_files_done s) \<Longrightarrow>
   process_key info B s key = (s\<lparr>tif_files := tif_files s @ [key], tempfiles := Suc (tempfiles s)\<rparr>, None)"
  by (simp add: process_key_def Let_def)

lemma process_key_info_fails:
  "\<not> exclude_loop key False exclude_list \<Longrightarrow> suffix ''tif'' key \<Longrightarrow> key \<notin> set (tif_files_done s) \<Longrightarrow>
   B key = Some (Tiff pages) \<Longrightarrow> info (Tiff pages) = Some e \<Longrightarrow>
   process_key info B s key =
     (s\<lparr>tif_files := tif_files s @ [key], tempfiles := Suc (tempfiles s),
        downloads := downloads s @ [key]\<rparr>, Some e)"
  by (simp add: process_key_def Let_def)

lemma process_key_fails:
  "\<not> exclude_loop key False exclude_list \<Longrightarrow> suffix ''tif'' key \<Longrightarrow> key \<notin> set (tif_files_done s) \<Longrightarrow>
   B key = Some f \<Longrightarrow> info f = None \<Longrightarrow> read_metadata f = Inl e \<Longrightarrow>
   process_key info B s key =
     (s\<lparr>tif_files := tif_files s @ [key], tempfiles := Suc (tempfiles s),
        downloads := downloads s @ [key]\<rparr>, Some e)"
  by (cases f) (simp_all add: process_key_def Let_def process_tif_def read_metadata_def)

lemma process_key_records:
  "\<not> exclude_loop key False exclude_list \<Longrightarrow> suffix ''tif'' key \<Longrightarrow> key \<notin> set (tif_files_done s) \<Longrightarrow>
   B key = Some f \<Longrightarrow> info f = None \<Longrightarrow> read_metadata f = Inr d \<Longrightarrow>
   process_key info B s key =
     (s\<lparr>tif_files := tif_files s @ [key], tempfiles := Suc (tempfiles s),
        downloads := downloads s @ [key],
        metadata_files := (metadata_files s)(metadata_filename key \<mapsto> d),
        inventory :=
          Some (case inventory s of
                  Some csv \<Rightarrow> to_csv_append (key, small_dict d [] important_keys) csv
                | None \<Rightarrow> to_csv (key, small_dict d [] important_keys)),
        tif_files_done := tif_files_done s @ [key]\<rparr>, None)"
  by (cases f) (simp_all add: process_key_def Let_def process_tif_def read_metadata_def)

lemma process_key_cases:
  assumes "process_key info B s key = (s', r)"
  obtains (skipped) "exclude_loop key False exclude_list \<or> \<not> suffix ''tif'' key"
      "s' = s" "r = None"
  | (already) "\<not> exclude_loop key False exclude_list" "suffix ''tif'' key"
      "key \<in> set (tif_files_done s)" "r = None"
      "s' = s\<lparr>tif_files := tif_files s @ [key], tempfiles := Suc (tempfiles s)\<rparr>"
  | (failed) e where "\<not> exclude_loop key False exclude_list" "suffix ''tif'' key"
      "key \<notin> set (tif_files_done s)" "r = Some e"
      "s' = s\<lparr>tif_files := tif_files s @ [key], tempfiles := Suc (tempfiles s),
        downloads := downloads s @ [key]\<rparr>"
  | (recorded) f d where "\<not> exclude_loop key False exclude_list" "suffix ''tif'' key"
      "key \<notin> set (tif_files_done s)" "r = None"
      "B key = Some f" "read_metadata f = Inr d"
      "s' = s\<lparr>tif_files := tif_files s @ [key], tempfiles := Suc (tempfiles s),
        downloads := downloads s @ [key],
        metadata_files := (metadata_files s)(metadata_filename key \<mapsto> d),
        inventory :=
          Some (case inventory s of
                  Some csv \<Rightarrow> to_csv_append (key, small_dict d [] important_keys) csv
                | None \<Rightarrow> to_csv (key, small_dict d [] important_keys)),
        tif_files_done := tif_files_done s @ [key]\<rparr>"
      "info f = None"
proof (cases "exclude_loop key False exclude_list \<or> \<not> suffix ''tif'' key")
  case True
  then show ?thesis using assms skipped by (simp add: process_key_filtered)
next
  case el: False
  show ?thesis
  proof (cases "key \<in> set (tif_files_done s)")
    case True
    then show ?thesis using assms el already by (simp add: process_key_done)
  next
    case nd: False
    show ?thesis
    proof (cases "B key")
      case None
      then show ?thesis using assms el nd failed[of ClientError]
        by (simp add: process_key_def Let_def)
    next
      case (Some f)
      show ?thesis
      proof (cases f)
        case NotTiff
        then show ?thesis using assms el nd Some failed[of InvalidTiff]
          by (simp add: process_key_def Let_def)
      next
        case (Tiff pages)
        show ?thesis
        proof (cases "info f")
          case raises: (Some e)
          then show ?thesis using assms el nd Some Tiff failed[of e]
            by (simp add: process_key_info_fails)
        next
          case returns: None
          show ?thesis
          proof (cases "read_metadata f")
            case (Inl e)
            then show ?thesis using assms el nd Some returns failed[of e]
              by (simp add: process_key_fails)
          next
            case (Inr d)
            then show ?thesis using assms el nd Some returns recorded[of f d]
              by (simp add: process_key_records)
          qed
        qed
      qed
    qed
  qed
qed

lemma rows_of_recorded:
  "inventory s' = Some (case inventory s of Some csv \<Rightarrow> to_csv_append (key, cells) csv
                             | None \<Rightarrow> to_csv (key, cells)) \<Longrightarrow>
   rows_of k s' = rows_of k s @ (if key = k then [(key, map snd cells)] else [])"
  by (auto simp: rows_of_def inventory_rows_def to_csv_def to_csv_append_def split: option.splits)

lemma downloads_of_added:
  "downloads s' = downloads s @ [key] \<Longrightarrow>
   downloads_of k s' = downloads_of k s @ (if key = k then [key] else [])"
  by (simp add: downloads_of_def)

text \<open>What one key of the loop does for another key \<open>k\<close>, and for one that is done.\<close>

lemma process_key_other:
  assumes "process_key info B s key = (s', r)" and "key \<noteq> k"
  shows "rows_of k s' = rows_of k s \<and> downloads_of k s' = downloads_of k s
    \<and> filter (\<lambda>x. x = k) (tif_files s') = filter (\<lambda>x. x = k) (tif_files s)
    \<and> filter (\<lambda>x. x = k) (tif_files_done s') = filter (\<lambda>x. x = k) (tif_files_done s)"
  using assms(1)
proof (cases rule: process_key_cases)
  case skipped
  then show ?thesis by simp
next
  case already
  then show ?thesis using assms(2) by (simp add: rows_of_def inventory_rows_def downloads_of_def)
next
  case (failed e)
  then show ?thesis using assms(2) by (simp add: rows_of_def inventory_rows_def downloads_of_def)
next
  case (recorded f d)
  have "rows_of k s' = rows_of k s @ (if key = k then [(key, map snd (small_dict d [] important_keys))] else [])"
    by (rule rows_of_recorded) (simp add: recorded)
  moreover have "downloads_of k s' = downloads_of k s @ (if key = k then [key] else [])"
    by (rule downloads_of_added) (simp add: recorded)
  ultimately show ?thesis using assms(2) recorded by simp
qed

lemma process_key_done_key:
  assumes "process_key info B s k = (s', r)" and "k \<in> set (tif_files_done s)"
  shows "rows_of k s' = rows_of k s \<and> downloads_of k s' = downloads_of k s"
  using assms(1)
proof (cases rule: process_key_cases)
  case skipped
  then show ?thesis by simp
next
  case already
  then show ?thesis by (simp add: rows_of_def inventory_rows_def downloads_of_def)
next
  case (failed e)
  then show ?thesis using assms(2) by simp
next
  case (recorded f d)
  then show ?thesis using assms(2) by simp
qed

lemma process_key_done_mono:
  assumes "process_key info B s key = (s', r)"
  shows "set (tif_files_done s) \<subseteq> set (tif_files_done s')"
  using assms
proof (cases rule: process_key_cases)
  case (recorded f d)
  have "tif_files_done s' = tif_files_done s @ [key]" by (simp add: recorded(7))
  then show ?thesis by auto
qed simp_all

lemma process_key_new_row:
  assumes "process_key info B s key = (s', r)" and "rows_of k s' \<noteq> rows_of k s"
  shows "k \<in> set (tif_files_done s')"
  using assms(1)
proof (cases rule: process_key_cases)
  case skipped
  then show ?thesis using assms(2) by simp
next
  case already
  then show ?thesis using assms(2) by (simp add: rows_of_def inventory_rows_def)
next
  case (failed e)
  then show ?thesis using assms(2) by (simp add: rows_of_def inventory_rows_def)
next
  case (recorded f d)
  have "rows_of k s' = rows_of k s @ (if key = k then [(key, map snd (small_dict d [] important_keys))] else [])"
    by (rule rows_of_recorded) (simp add: recorded)
  then have "key = k" using assms(2) by (auto split: if_splits)
  then show ?thesis using recorded by simp
qed

lemma process_key_files:
  assumes "process_key info B s key = (s', r)" and "metadata_files s' p \<noteq> metadata_files s p"
  shows "p = metadata_filename key \<and> \<not> exclude_loop key False exclude_list \<and> suffix ''tif'' key"
  using assms(1)
proof (cases rule: process_key_cases)
  case (recorded f d)
  have "metadata_files s' = (metadata_files s)(metadata_filename key \<mapsto> d)"
    by (simp add: recorded(7))
  then have "p = metadata_filename key" using assms(2) by (auto split: if_splits)
  then show ?thesis using recorded(1,2) by simp
qed (use assms(2) in simp_all)

text \<open>The same for the whole loop.\<close>

lemma batch_done_key:
  "batch info B s keys = (s', r) \<Longrightarrow> k \<in> set (tif_files_done s) \<Longrightarrow>
   rows_of k s' = rows_of k s \<and> downloads_of k s' = downloads_of k s \<and> k \<in> set (tif_files_done s')"
proof (induction keys arbitrary: s)
  case Nil
  then show ?case by simp
next
  case (Cons key keys)
  obtain s1 r1 where pk: "process_key info B s key = (s1, r1)" by (cases "process_key info B s key")
  have d1: "k \<in> set (tif_files_done s1)" using process_key_done_mono[OF pk] Cons.prems(2) by auto
  have same: "rows_of k s1 = rows_of k s \<and> downloads_of k s1 = downloads_of k s"
  proof (cases "key = k")
    case True
    then show ?thesis using process_key_done_key[of info B s k s1 r1] pk Cons.prems(2) by simp
  next
    case False
    then show ?thesis using process_key_other[OF pk] by simp
  qed
  show ?case
  proof (cases r1)
    case None
    then have "batch info B s1 keys = (s', r)" using Cons.prems(1) pk by simp
    then show ?thesis using Cons.IH[of s1] d1 same by simp
  next
    case (Some e)
    then have "s' = s1" using Cons.prems(1) pk by simp
    then show ?thesis using d1 same by simp
  qed
qed

lemma batch_new_row:
  "batch info B s keys = (s', r) \<Longrightarrow> rows_of k s' \<noteq> rows_of k s \<Longrightarrow> k \<in> set (tif_files_done s')"
proof (induction keys arbitrary: s)
  case Nil
  then show ?case by simp
next
  case (Cons key keys)
  obtain s1 r1 where pk: "process_key info B s key = (s1, r1)" by (cases "process_key info B s key")
  show ?case
  proof (cases r1)
    case None
    then have b: "batch info B s1 keys = (s', r)" using Cons.prems(1) pk by simp
    show ?thesis
    proof (cases "rows_of k s1 = rows_of k s")
      case True
      then show ?thesis using Cons.IH[OF b] Cons.prems(2) by simp
    next
      case False
      then have "k \<in> set (tif_files_done s1)" using process_key_new_row[OF pk] by simp
      then show ?thesis using batch_done_key[OF b] by simp
    qed
  next
    case (Some e)
    then have "s' = s1" using Cons.prems(1) pk by simp
    then show ?thesis using process_key_new_row[OF pk] Cons.prems(2) by simp
  qed
qed

lemma batch_filtered:
  "batch info B s keys = (s', r) \<Longrightarrow> exclude_loop k False exclude_list \<or> \<not> suffix ''tif'' k \<Longrightarrow>
   rows_of k s' = rows_of k s \<and> downloads_of k s' = downloads_of k s
    \<and> filter (\<lambda>x. x = k) (tif_files s') = filter (\<lambda>x. x = k) (tif_files s)
    \<and> filter (\<lambda>x. x = k) (tif_files_done s') = filter (\<lambda>x. x = k) (tif_files_done s)"
proof (induction keys arbitrary: s)
  case Nil
  then show ?case by simp
next
  case (Cons key keys)
  obtain s1 r1 where pk: "process_key info B s key = (s1, r1)" by (cases "process_key info B s key")
  have same: "rows_of k s1 = rows_of k s \<and> downloads_of k s1 = downloads_of k s
    \<and> filter (\<lambda>x. x = k) (tif_files s1) = filter (\<lambda>x. x = k) (tif_files s)
    \<and> filter (\<lambda>x. x = k) (tif_files_done s1) = filter (\<lambda>x. x = k) (tif_files_done s)"
  proof (cases "key = k")
    case True
    then have "s1 = s" using pk Cons.prems(2) by (simp add: process_key_filtered)
    then show ?thesis by simp
  next
    case False
    then show ?thesis using process_key_other[OF pk] by simp
  qed
  show ?case
  proof (cases r1)
    case None
    then have "batch info B s1 keys = (s', r)" using Cons.prems(1) pk by simp
    then show ?thesis using Cons.IH[of s1] Cons.prems(2) same by simp
  next
    case (Some e)
    then have "s' = s1" using Cons.prems(1) pk by simp
    then show ?thesis using same by simp
  qed
qed

lemma batch_files:
  "batch info B s keys = (s', r) \<Longrightarrow> metadata_files s' p \<noteq> metadata_files s p \<Longrightarrow>
   \<exists>key \<in> set keys. p = metadata_filename key \<and> \<not> exclude_loop key False exclude_list
      \<and> suffix ''tif'' key"
proof (induction keys arbitrary: s)
  case Nil
  then show ?case by simp
next
  case (Cons key keys)
  obtain s1 r1 where pk: "process_key info B s key = (s1, r1)" by (cases "process_key info B s key")
  show ?case
  proof (cases "metadata_files s1 p = metadata_files s p")
    case True
    then have ne: "metadata_files s' p \<noteq> metadata_files s1 p" using Cons.prems(2) by simp
    then have "r1 = None" using Cons.prems(1) pk by (cases r1) auto
    then have "batch info B s1 keys = (s', r)" using Cons.prems(1) pk by simp
    then show ?thesis using Cons.IH[of s1] ne by auto
  next
    case False
    then show ?thesis using process_key_files[OF pk] by simp
  qed
qed

section \<open>The projection and the lines of the description\<close>

lemma small_dict_append:
  "distinct keys \<Longrightarrow> set keys \<inter> fst ` set acc = {} \<Longrightarrow>
   small_dict d acc keys = acc @ map (\<lambda>k. (k, map_of d k)) keys"
proof (induction keys arbitrary: acc)
  case Nil
  then show ?case by simp
next
  case (Cons key keys)
  have none: "key \<notin> fst ` set d \<Longrightarrow> map_of d key = None" by (simp add: map_of_eq_None_iff)
  have fresh: "key \<notin> fst ` set acc" using Cons.prems(2) by auto
  have upd: "AList.update key v acc = acc @ [(key, v)]" for v
    using fresh by (induction acc) auto
  have step: "small_dict d acc (key # keys) = small_dict d (acc @ [(key, map_of d key)]) keys"
    using none by (simp add: upd)
  have "set keys \<inter> fst ` set (acc @ [(key, map_of d key)]) = {}"
    using Cons.prems by auto
  then have "small_dict d (acc @ [(key, map_of d key)]) keys
      = (acc @ [(key, map_of d key)]) @ map (\<lambda>k. (k, map_of d k)) keys"
    using Cons.IH Cons.prems(1) by simp
  then show ?case using step by simp
qed

lemma small_dict_important:
  "small_dict d [] important_keys =
     [(''image_width'', map_of d ''image_width''), (''image_length'', map_of d ''image_length''),
      (''channels'', map_of d ''channels''), (''slices'', map_of d ''slices''),
      (''hyperstack'', map_of d ''hyperstack''), (''sizeInGB'', map_of d ''sizeInGB'')]"
proof -
  have "distinct important_keys" by (simp add: important_keys_def)
  then have "small_dict d [] important_keys = [] @ map (\<lambda>k. (k, map_of d k)) important_keys"
    by (rule small_dict_append) simp
  then show ?thesis by (simp add: important_keys_def)
qed

lemma read_tags_single [simp]: "read_tags d [t] = read_tag d t"
  by (simp split: sum.splits)

lemma read_tag_description:
  "decode_ascii b = Inr s \<Longrightarrow>
   read_tag d \<lparr>name = ''image_description'', value = Bytes b, str_value = sv\<rparr>
     = read_items d (butlast (split_on CHR ''\<newline>'' s))"
  by (simp add: read_tag_def)

lemma read_item_int:
  "split_on CHR ''='' item = [k, v] \<Longrightarrow> k \<in> {''images'', ''channels'', ''slices''} \<Longrightarrow>
   read_item d item = (case py_int v of Inl e \<Rightarrow> Inl e | Inr n \<Rightarrow> Inr (AList.update k (VInt n) d))"
  by (auto simp: read_item_def)

lemma py_int_error: "py_int v = Inl e \<Longrightarrow> e = IntValueError"
  by (auto simp: py_int_def Let_def split: option.splits)

lemma read_tag_byte_counts:
  "read_tag d \<lparr>name = ''strip_byte_counts'', value = Tuple (n # ns), str_value = sv\<rparr>
     = (case py_float n of
          Inl e \<Rightarrow> Inl e
        | Inr x \<Rightarrow> Inr (AList.update ''sizeInGB'' (VFloat (py_truediv x 1000000000)) d))"
  by (simp add: read_tag_def)

lemma read_tags_split:
  assumes "read_tags d (ts1 @ tag # ts2) = Inr d'"
  obtains d1 d2 where "read_tags d ts1 = Inr d1" "read_tag d1 tag = Inr d2" "read_tags d2 ts2 = Inr d'"
  using assms by (auto simp: read_tags_append split: sum.splits)

section \<open>The sample inputs evaluated\<close>

lemma read_metadata_sample_stack:
  "read_metadata sample_stack = Inr sample_dict"
proof -
  have "py_float 1159201000 = Inr 1159201000"
    using py_float_exact[of 1159201000] by simp
  then show ?thesis
    by (simp add: read_metadata_def sample_stack_def read_tag_def decode_ascii_def read_item_def
          py_int_def py_strip_def py_isspace_def is_digit_def digit_val_def py_bool_def
          py_truediv_def sample_dict_def)
qed

lemma sample_key_eligible:
  "\<not> exclude_loop ''Scan050/Fused.tif'' False exclude_list" "suffix ''tif'' ''Scan050/Fused.tif''"
  by (simp_all add: exclude_list_def sublist_code suffix_to_prefix)

lemma sample_filename: "metadata_filename ''Scan050/Fused.tif'' = ''data/metadata/Fused_metadata.txt''"
  by (simp add: metadata_filename_def METADATA_def path_join_def)

lemma sample_small_dict:
  "small_dict sample_dict [] important_keys =
     [(''image_width'', Some (VStr ''2048'')), (''image_length'', Some (VStr ''1024'')),
      (''channels'', Some (VInt 3)), (''slices'', Some (VInt 10)),
      (''hyperstack'', Some (VBool True)),
      (''sizeInGB'', Some (VFloat (round_double (1159201 / 1000000))))]"
  by (simp add: small_dict_important) (simp add: sample_dict_def)

lemma sample_info_returns: "sample_info f = None"
  by (simp add: sample_info_def)

lemma sample_bucket_Fused: "sample_bucket ''Scan050/Fused.tif'' = Some sample_stack"
  by (simp add: sample_bucket_def)

lemma first_run: "batch sample_info sample_bucket empty_state [''Scan050/Fused.tif''] = (populated_state, None)"
proof -
  have nd: "''Scan050/Fused.tif'' \<notin> set (tif_files_done empty_state)"
    by (simp add: empty_state_def)
  note pk = process_key_records[where info = sample_info and B = sample_bucket
      and key = "''Scan050/Fused.tif''" and s = empty_state and f = sample_stack,
      OF sample_key_eligible(1) sample_key_eligible(2) nd sample_bucket_Fused
      sample_info_returns read_metadata_sample_stack]
  have "process_key sample_info sample_bucket empty_state ''Scan050/Fused.tif'' = (populated_state, None)"
    apply (subst pk)
    apply (simp add: sample_filename sample_small_dict to_csv_def empty_state_def
        populated_state_def sample_row_def)
    apply (simp add: important_keys_def)
    done
  then show ?thesis by simp
qed

lemma second_run:
  "batch sample_info sample_bucket (init_lists populated_state) [''Scan050/Fused.tif''] =
     (populated_state\<lparr>tempfiles := 2, downloads := [''Scan050/Fused.tif'', ''Scan050/Fused.tif''],
        inventory := Some (important_keys, [sample_row, sample_row])\<rparr>, None)"
proof -
  have nd: "''Scan050/Fused.tif'' \<notin> set (tif_files_done (init_lists populated_state))"
    by (simp add: init_lists_def)
  note pk = process_key_records[where info = sample_info and B = sample_bucket
      and key = "''Scan050/Fused.tif''" and s = "init_lists populated_state"
      and f = sample_stack,
      OF sample_key_eligible(1) sample_key_eligible(2) nd sample_bucket_Fused
      sample_info_returns read_metadata_sample_stack]
  have "process_key sample_info sample_bucket (init_lists populated_state) ''Scan050/Fused.tif'' =
     (populated_state\<lparr>tempfiles := 2, downloads := [''Scan050/Fused.tif'', ''Scan050/Fused.tif''],
        inventory := Some (important_keys, [sample_row, sample_row])\<rparr>, None)"
    apply (subst pk)
    apply (simp add: sample_filename sample_small_dict to_csv_append_def init_lists_def
        populated_state_def sample_row_def)
    done
  then show ?thesis by simp
qed

section \<open>Failing descriptions\<close>

lemma read_tag_description_fails:
  assumes "name tag = ''image_description''" and "value tag = Bytes b"
    and "decode_ascii b = Inr txt"
    and "item \<in> set (butlast (split_on CHR ''\<newline>'' txt))" and "CHR ''='' \<notin> set item"
  shows "\<exists>e. read_tag d tag = Inl e"
proof -
  have "read_tag d tag = read_items d (butlast (split_on CHR ''\<newline>'' txt))"
    using assms(1,2,3) by (simp add: read_tag_def)
  then show ?thesis using read_items_fails[OF assms(4,5)] by simp
qed

lemma read_tag_last_line:
  assumes "read_tag d1 tag = Inr d2"
    and "name tag = ''image_description''" and "value tag = Bytes b"
    and "butlast (split_on CHR ''\<newline>'' b) = ls @ item # ms"
    and "split_on CHR ''='' item = [k, v]" and "k \<notin> item_key ` set ms"
  shows "(k \<in> {''images'', ''channels'', ''slices''} \<longrightarrow>
           (\<exists>n. py_int v = Inr n \<and> map_of d2 k = Some (VInt n)))
       \<and> (k = ''hyperstack'' \<longrightarrow> map_of d2 k = Some (VBool (v \<noteq> [])))
       \<and> (k \<notin> {''images'', ''channels'', ''slices'', ''hyperstack''} \<longrightarrow>
           map_of d2 k = Some (VStr v))"
proof -
  have "read_items d1 (ls @ item # ms) = Inr d2"
    using assms(1,2,3,4) by (simp add: read_tag_def decode_ascii_def split: if_splits)
  then obtain da db where a: "read_items d1 ls = Inr da" and b: "read_item da item = Inr db"
      and c: "read_items db ms = Inr d2"
    by (auto simp: read_items_append split: sum.splits)
  have keep: "map_of d2 k = map_of db k" by (rule read_items_other_key[OF c assms(6)])
  have 1: "k \<in> {''images'', ''channels'', ''slices''} \<longrightarrow>
           (\<exists>n. py_int v = Inr n \<and> map_of db k = Some (VInt n))"
    using b assms(5) by (auto simp: read_item_def update_conv' split: sum.splits)
  have 2: "k = ''hyperstack'' \<longrightarrow> map_of db k = Some (VBool (v \<noteq> []))"
    using b assms(5) by (auto simp: read_item_def update_conv' py_bool_def)
  have 3: "k \<notin> {''images'', ''channels'', ''slices'', ''hyperstack''} \<longrightarrow>
           map_of db k = Some (VStr v)"
    using b assms(5) by (auto simp: read_item_def update_conv')
  show ?thesis unfolding keep using 1 2 3 by blast
qed

lemma read_tags_fails:
  assumes "\<And>d. \<exists>e. read_tag d tag = Inl e"
  shows "\<exists>e. read_tags d0 (ts1 @ tag # ts2) = Inl e"
proof (cases "read_tags d0 ts1")
  case (Inl e)
  then show ?thesis by (simp add: read_tags_append)
next
  case (Inr d1)
  obtain e where "read_tag d1 tag = Inl e" using assms by blast
  then show ?thesis using Inr by (simp add: read_tags_append)
qed

section \<open>Archive names\<close>

lemma split_on_parts: "x \<in> set (split_on c s) \<Longrightarrow> c \<notin> set x"
  by (induction s arbitrary: x) (auto split: if_splits list.splits)

lemma last_split_on: "c \<notin> set (last (split_on c s))"
  using split_on_parts[of "last (split_on c s)" c s] split_on_not_Nil[of c s] by simp

lemma takeWhile_notin: "c \<notin> set s \<Longrightarrow> takeWhile (\<lambda>x. x \<noteq> c) s = s"
  by (induction s) auto

lemma strip_extension_one_dot:
  assumes "length (filter (\<lambda>c. c = CHR ''.'') seg) \<le> 1"
  shows "strip_extension seg = takeWhile (\<lambda>c. c \<noteq> CHR ''.'') seg"
proof (cases "CHR ''.'' \<in> set seg")
  case False
  then show ?thesis by (simp add: strip_extension_def takeWhile_notin)
next
  case True
  then obtain a b where seg: "seg = a @ CHR ''.'' # b" and a: "CHR ''.'' \<notin> set a"
    by (auto dest: split_list_first)
  have "filter (\<lambda>c. c = CHR ''.'') b = []"
    using assms a by (simp add: seg)
  then have b: "CHR ''.'' \<notin> set b" by (auto simp: filter_empty_conv)
  have "dropWhile (\<lambda>c. c \<noteq> CHR ''.'') (rev b @ CHR ''.'' # rev a) = CHR ''.'' # rev a"
    using b by (auto simp: dropWhile_append3)
  then have "strip_extension seg = a" by (simp add: strip_extension_def seg)
  moreover have "takeWhile (\<lambda>c. c \<noteq> CHR ''.'') seg = a"
    using a by (auto simp: seg takeWhile_tail)
  ultimately show ?thesis by simp
qed

lemma path_join_METADATA:
  "x = [] \<or> hd x \<noteq> CHR ''/'' \<Longrightarrow> path_join METADATA x = ''data/metadata/'' @ x"
  by (auto simp: path_join_def METADATA_def)

section \<open>Runs over the sample bucket\<close>

lemma rerun_in_session:
  "batch sample_info sample_bucket populated_state [''Scan050/Fused.tif''] =
     (populated_state\<lparr>tif_files := [''Scan050/Fused.tif'', ''Scan050/Fused.tif''],
        tempfiles := 2\<rparr>, None)"
proof -
  have d: "''Scan050/Fused.tif'' \<in> set (tif_files_done populated_state)"
    by (simp add: populated_state_def)
  have "process_key sample_info sample_bucket populated_state ''Scan050/Fused.tif'' =
     (populated_state\<lparr>tif_files := [''Scan050/Fused.tif'', ''Scan050/Fused.tif''],
        tempfiles := 2\<rparr>, None)"
    by (subst process_key_done[OF sample_key_eligible(1) sample_key_eligible(2) d])
       (simp add: populated_state_def)
  then show ?thesis by simp
qed

lemma broken_key_eligible:
  "\<not> (\<exists>n \<in> set exclude_list. sublist n ''Scan049/broken.tif'')" "suffix ''tif'' ''Scan049/broken.tif''"
  by (simp_all add: exclude_list_def sublist_code suffix_to_prefix)

lemma read_metadata_broken_stack: "read_metadata broken_stack = Inl UnpackValueError"
  by (simp add: read_metadata_def broken_stack_def read_tag_def decode_ascii_def read_item_def)

lemma broken_run:
  "batch sample_info sample_bucket empty_state (''Scan049/broken.tif'' # keys) =
     (empty_state\<lparr>tif_files := [''Scan049/broken.tif''], tempfiles := 1,
        downloads := [''Scan049/broken.tif'']\<rparr>, Some UnpackValueError)"
proof -
  have el: "\<not> exclude_loop ''Scan049/broken.tif'' False exclude_list"
    using broken_key_eligible(1) by (simp add: exclude_loop_iff)
  have nd: "''Scan049/broken.tif'' \<notin> set (tif_files_done empty_state)"
    by (simp add: empty_state_def)
  have b: "sample_bucket ''Scan049/broken.tif'' = Some broken_stack"
    by (simp add: sample_bucket_def)
  have "process_key sample_info sample_bucket empty_state ''Scan049/broken.tif'' =
     (empty_state\<lparr>tif_files := [''Scan049/broken.tif''], tempfiles := 1,
        downloads := [''Scan049/broken.tif'']\<rparr>, Some UnpackValueError)"
    by (subst process_key_fails[where info = sample_info and B = sample_bucket
          and key = "''Scan049/broken.tif''" and f = broken_stack,
          OF el broken_key_eligible(2) nd b sample_info_returns read_metadata_broken_stack])
       (simp add: empty_state_def)
  then show ?thesis by simp
qed

lemma broken_run_info:
  "batch raising_info sample_bucket empty_state (''Scan049/broken.tif'' # keys) =
     (empty_state\<lparr>tif_files := [''Scan049/broken.tif''], tempfiles := 1,
        downloads := [''Scan049/broken.tif'']\<rparr>, Some InfoError)"
proof -
  have el: "\<not> exclude_loop ''Scan049/broken.tif'' False exclude_list"
    using broken_key_eligible(1) by (simp add: exclude_loop_iff)
  have nd: "''Scan049/broken.tif'' \<notin> set (tif_files_done empty_state)"
    by (simp add: empty_state_def)
  obtain pages where p: "broken_stack = Tiff pages" by (simp add: broken_stack_def)
  have b: "sample_bucket ''Scan049/broken.tif'' = Some (Tiff pages)"
    by (simp add: sample_bucket_def p)
  have i: "raising_info (Tiff pages) = Some InfoError" by (simp add: raising_info_def)
  have "process_key raising_info sample_bucket empty_state ''Scan049/broken.tif'' =
     (empty_state\<lparr>tif_files := [''Scan049/broken.tif''], tempfiles := 1,
        downloads := [''Scan049/broken.tif'']\<rparr>, Some InfoError)"
    by (subst process_key_info_fails[where info = raising_info and B = sample_bucket
          and key = "''Scan049/broken.tif''", OF el broken_key_eligible(2) nd b i])
       (simp add: empty_state_def)
  then show ?thesis by simp
qed

section \<open>The claims\<close>

text \<open>
  Claim C1, as amended. The list \<open>tif_files_done\<close> lives in memory only: the cell that
  starts a run sets it to \<open>[]\<close> and leaves the inventory file and the dumps alone, and
  nothing loads it from them. Within one session it does its work: for a label in
  \<open>tif_files_done\<close> the loop, over any listing, downloads nothing and adds no row, and the
  label stays in the list; and every label that the loop adds a row for is in
  \<open>tif_files_done\<close> afterwards.
\<close>

theorem done_label_skipped:
  "(k \<in> set (tif_files_done s) \<and> batch info B s keys = (s', r) \<longrightarrow>
      rows_of k s' = rows_of k s \<and> downloads_of k s' = downloads_of k s
      \<and> k \<in> set (tif_files_done s'))
   \<and> (batch info B s keys = (s', r) \<and> rows_of k s' \<noteq> rows_of k s \<longrightarrow> k \<in> set (tif_files_done s'))
   \<and> tif_files_done (init_lists s) = []
   \<and> inventory (init_lists s) = inventory s
   \<and> metadata_files (init_lists s) = metadata_files s"
  using batch_done_key[of info B s keys s' r k] batch_new_row[of info B s keys s' r k]
  by (auto simp: init_lists_def)

text \<open>
  The amended claim at work: the loop run again on the state that a run over the sample key
  has left, with the lists kept.
\<close>

theorem done_label_skipped_witness:
  "''Scan050/Fused.tif'' \<in> set (tif_files_done populated_state)
   \<and> batch sample_info sample_bucket populated_state [''Scan050/Fused.tif''] =
     (populated_state\<lparr>tif_files := [''Scan050/Fused.tif'', ''Scan050/Fused.tif''],
        tempfiles := 2\<rparr>, None)
   \<and> rows_of ''Scan050/Fused.tif''
        (populated_state\<lparr>tif_files := [''Scan050/Fused.tif'', ''Scan050/Fused.tif''],
           tempfiles := 2\<rparr>) = rows_of ''Scan050/Fused.tif'' populated_state
   \<and> downloads_of ''Scan050/Fused.tif''
        (populated_state\<lparr>tif_files := [''Scan050/Fused.tif'', ''Scan050/Fused.tif''],
           tempfiles := 2\<rparr>) = downloads_of ''Scan050/Fused.tif'' populated_state"
proof -
  have d: "''Scan050/Fused.tif'' \<in> set (tif_files_done populated_state)"
    by (simp add: populated_state_def)
  show ?thesis
    using d rerun_in_session
      done_label_skipped[where k = "''Scan050/Fused.tif''" and s = populated_state
        and info = sample_info and B = sample_bucket and keys = "[''Scan050/Fused.tif'']"
        and s' = "populated_state\<lparr>tif_files := [''Scan050/Fused.tif'', ''Scan050/Fused.tif''],
           tempfiles := 2\<rparr>" and r = None]
    by blast
qed

text \<open>
  Claim C1 as stated fails: after a run has put the row of the sample key into the
  inventory file, a run from the start (the lists set to \<open>[]\<close>, the inventory file as the
  first run left it) over the same listing downloads the key again and appends a second row.
\<close>

theorem rerun_from_start_duplicates:
  "batch sample_info sample_bucket empty_state [''Scan050/Fused.tif''] = (populated_state, None)
   \<and> rows_of ''Scan050/Fused.tif'' populated_state = [sample_row]
   \<and> tif_files_done (init_lists populated_state) = []
   \<and> batch sample_info sample_bucket (init_lists populated_state) [''Scan050/Fused.tif''] =
       (populated_state\<lparr>tempfiles := 2,
          downloads := [''Scan050/Fused.tif'', ''Scan050/Fused.tif''],
          inventory := Some (important_keys, [sample_row, sample_row])\<rparr>, None)
   \<and> rows_of ''Scan050/Fused.tif''
        (populated_state\<lparr>tempfiles := 2,
          downloads := [''Scan050/Fused.tif'', ''Scan050/Fused.tif''],
          inventory := Some (important_keys, [sample_row, sample_row])\<rparr>)
       = [sample_row, sample_row]"
  using first_run second_run
  by (simp add: rows_of_def inventory_rows_def populated_state_def sample_row_def init_lists_def)

text \<open>
  Claim C2, as amended. When the description of the file under an eligible key that is not
  done keeps a line without \<open>=\<close>, \<open>read_metadata\<close> raises on the file: the \<open>ValueError\<close> of
  the two-name unpacking when the tags and lines before that line were read, and some
  exception at any rate. Nothing in the loop catches an exception: the loop ends at this key,
  with the exception of \<open>tif.info()\<close> when that call raises on the file and with the one of
  \<open>read_metadata\<close> otherwise; the key is in \<open>tif_files\<close> and among the downloads, it is not
  marked done, the inventory file and the dumps are as before, and the keys after it are not
  looked at.
\<close>

theorem malformed_descriptor_aborts:
  assumes "\<not> (\<exists>n \<in> set exclude_list. sublist n key)" and "suffix ''tif'' key"
    and "key \<notin> set (tif_files_done s)"
    and "B key = Some (Tiff pages)" and "concat pages = ts1 @ tag # ts2"
    and "name tag = ''image_description''" and "value tag = Bytes b"
    and "decode_ascii b = Inr txt"
    and "butlast (split_on CHR ''\<newline>'' txt) = ls1 @ item # ls2"
    and "CHR ''='' \<notin> set item"
  shows "\<exists>e e0. read_metadata (Tiff pages) = Inl e0
     \<and> ((\<exists>d1 d2. read_tags [] ts1 = Inr d1 \<and> read_items d1 ls1 = Inr d2) \<longrightarrow>
          e0 = UnpackValueError)
     \<and> e = (case info (Tiff pages) of Some e' \<Rightarrow> e' | None \<Rightarrow> e0)
     \<and> batch info B s (key # keys) =
         (s\<lparr>tif_files := tif_files s @ [key], tempfiles := Suc (tempfiles s),
            downloads := downloads s @ [key]\<rparr>, Some e)"
proof -
  have mem: "item \<in> set (butlast (split_on CHR ''\<newline>'' txt))" using assms(9) by simp
  have "\<exists>e. read_tags [] (ts1 @ tag # ts2) = Inl e"
    by (rule read_tags_fails) (rule read_tag_description_fails[OF assms(6,7,8) mem assms(10)])
  then obtain e0 where e0: "read_metadata (Tiff pages) = Inl e0"
    using assms(5) by (auto simp: read_metadata_def read_pages_concat)
  have u: "(\<exists>d1 d2. read_tags [] ts1 = Inr d1 \<and> read_items d1 ls1 = Inr d2) \<longrightarrow>
          e0 = UnpackValueError"
  proof
    assume "\<exists>d1 d2. read_tags [] ts1 = Inr d1 \<and> read_items d1 ls1 = Inr d2"
    then obtain d1 d2 where 1: "read_tags [] ts1 = Inr d1" and 2: "read_items d1 ls1 = Inr d2"
      by blast
    have "read_tag d1 tag = read_items d1 (ls1 @ item # ls2)"
      using assms(6,7,8,9) by (simp add: read_tag_def)
    also have "\<dots> = Inl UnpackValueError"
      using 2 assms(10) by (simp add: read_items_append read_item_no_sep)
    finally have "read_tags [] (ts1 @ tag # ts2) = Inl UnpackValueError"
      using 1 by (simp add: read_tags_append)
    then have "read_metadata (Tiff pages) = Inl UnpackValueError"
      using assms(5) by (simp add: read_metadata_def read_pages_concat)
    then show "e0 = UnpackValueError" using e0 by simp
  qed
  define e where "e = (case info (Tiff pages) of Some e' \<Rightarrow> e' | None \<Rightarrow> e0)"
  have el: "\<not> exclude_loop key False exclude_list" using assms(1) by (simp add: exclude_loop_iff)
  have "process_key info B s key =
         (s\<lparr>tif_files := tif_files s @ [key], tempfiles := Suc (tempfiles s),
            downloads := downloads s @ [key]\<rparr>, Some e)"
  proof (cases "info (Tiff pages)")
    case None
    then have "e = e0" by (simp add: e_def)
    then show ?thesis
      using process_key_fails[where info = info and B = B and key = key and f = "Tiff pages",
          OF el assms(2,3,4) None e0]
      by simp
  next
    case (Some e')
    then have "e = e'" by (simp add: e_def)
    then show ?thesis
      using process_key_info_fails[where info = info and B = B and key = key,
          OF el assms(2,3,4) Some]
      by simp
  qed
  then have b: "batch info B s (key # keys) =
         (s\<lparr>tif_files := tif_files s @ [key], tempfiles := Suc (tempfiles s),
            downloads := downloads s @ [key]\<rparr>, Some e)"
    by simp
  show ?thesis using e0 u b e_def by blast
qed

text \<open>
  The amended claim at the broken sample file, followed in the listing by the sample stack.
\<close>

theorem malformed_descriptor_aborts_witness:
  "\<not> sublist ''Lepto_fovea'' ''Scan049/broken.tif''
   \<and> \<not> sublist ''Lepto_head_lowres'' ''Scan049/broken.tif''
   \<and> \<not> sublist ''Holco_Scan53_fly1'' ''Scan049/broken.tif''
   \<and> suffix ''tif'' ''Scan049/broken.tif''
   \<and> ''Scan049/broken.tif'' \<notin> set (tif_files_done empty_state)
   \<and> sample_bucket ''Scan049/broken.tif'' = Some broken_stack
   \<and> sample_info broken_stack = None
   \<and> butlast (split_on CHR ''\<newline>'' ''ImageJ\<newline>images=30\<newline>'') = [] @ ''ImageJ'' # [''images=30'']
   \<and> CHR ''='' \<notin> set ''ImageJ''
   \<and> read_metadata broken_stack = Inl UnpackValueError
   \<and> batch sample_info sample_bucket empty_state [''Scan049/broken.tif'', ''Scan050/Fused.tif''] =
       (empty_state\<lparr>tif_files := tif_files empty_state @ [''Scan049/broken.tif''],
          tempfiles := Suc (tempfiles empty_state),
          downloads := downloads empty_state @ [''Scan049/broken.tif'']\<rparr>,
        Some UnpackValueError)"
proof -
  let ?w = "\<lparr>name = ''image_width'', value = Other, str_value = ''2048''\<rparr>"
  let ?l = "\<lparr>name = ''image_length'', value = Other, str_value = ''1024''\<rparr>"
  let ?t = "\<lparr>name = ''image_description'',
      value = Bytes ''ImageJ\<newline>images=30\<newline>'', str_value = []\<rparr>"
  let ?o = "\<lparr>name = ''strip_offsets'', value = Tuple [8], str_value = ''(8,)''\<rparr>"
  let ?c = "\<lparr>name = ''strip_byte_counts'', value = Tuple [1159201000],
      str_value = ''(1159201000,)''\<rparr>"
  have h0: "\<not> sublist ''Lepto_fovea'' ''Scan049/broken.tif''
   \<and> \<not> sublist ''Lepto_head_lowres'' ''Scan049/broken.tif''
   \<and> \<not> sublist ''Holco_Scan53_fly1'' ''Scan049/broken.tif''"
    by (simp add: sublist_code)
  have h3: "''Scan049/broken.tif'' \<notin> set (tif_files_done empty_state)"
    by (simp add: empty_state_def)
  have bs: "broken_stack = Tiff [[?w, ?l, ?t, ?o, ?c]]" by (simp add: broken_stack_def)
  have h4: "sample_bucket ''Scan049/broken.tif'' = Some (Tiff [[?w, ?l, ?t, ?o, ?c]])"
    by (simp add: sample_bucket_def broken_stack_def)
  have h5: "concat [[?w, ?l, ?t, ?o, ?c]] = [?w, ?l] @ ?t # [?o, ?c]" by simp
  have h6: "name ?t = ''image_description''" and h7: "value ?t = Bytes ''ImageJ\<newline>images=30\<newline>''"
    by simp_all
  have h8: "decode_ascii ''ImageJ\<newline>images=30\<newline>'' = Inr ''ImageJ\<newline>images=30\<newline>''"
    by (simp add: decode_ascii_def)
  have h9: "butlast (split_on CHR ''\<newline>'' ''ImageJ\<newline>images=30\<newline>'') = [] @ ''ImageJ'' # [''images=30'']"
    by simp
  have h10: "CHR ''='' \<notin> set ''ImageJ''" by simp
  have pre: "\<exists>d1 d2. read_tags [] [?w, ?l] = Inr d1 \<and> read_items d1 [] = Inr d2"
    by (simp add: read_tag_def)
  from malformed_descriptor_aborts[where info = sample_info and B = sample_bucket
      and key = "''Scan049/broken.tif''" and keys = "[''Scan050/Fused.tif'']",
      OF broken_key_eligible(1) broken_key_eligible(2) h3 h4 h5 h6 h7 h8 h9 h10]
  obtain e e0 where r: "read_metadata (Tiff [[?w, ?l, ?t, ?o, ?c]]) = Inl e0"
    and u: "(\<exists>d1 d2. read_tags [] [?w, ?l] = Inr d1 \<and> read_items d1 [] = Inr d2) \<longrightarrow>
          e0 = UnpackValueError"
    and e: "e = (case sample_info (Tiff [[?w, ?l, ?t, ?o, ?c]]) of Some e' \<Rightarrow> e' | None \<Rightarrow> e0)"
    and b: "batch sample_info sample_bucket empty_state [''Scan049/broken.tif'', ''Scan050/Fused.tif''] =
         (empty_state\<lparr>tif_files := tif_files empty_state @ [''Scan049/broken.tif''],
            tempfiles := Suc (tempfiles empty_state),
            downloads := downloads empty_state @ [''Scan049/broken.tif'']\<rparr>, Some e)"
    by blast
  have e0: "e0 = UnpackValueError" using u pre by blast
  then have "e = UnpackValueError" using e by (simp add: sample_info_def)
  then have "batch sample_info sample_bucket empty_state [''Scan049/broken.tif'', ''Scan050/Fused.tif''] =
         (empty_state\<lparr>tif_files := tif_files empty_state @ [''Scan049/broken.tif''],
            tempfiles := Suc (tempfiles empty_state),
            downloads := downloads empty_state @ [''Scan049/broken.tif'']\<rparr>, Some UnpackValueError)"
    using b by simp
  moreover have "read_metadata broken_stack = Inl UnpackValueError"
    using r e0 by (simp only: bs)
  moreover have "sample_bucket ''Scan049/broken.tif'' = Some broken_stack"
    by (simp add: sample_bucket_def)
  ultimately show ?thesis
    using h0 h3 h9 h10 broken_key_eligible(2) sample_info_returns[of broken_stack] by blast
qed

text \<open>
  Claim C2 as stated fails: the loop over the broken file and then the sample stack ends at
  the first key, with the \<open>ValueError\<close> of \<open>read_metadata\<close> when \<open>tif.info()\<close> returns on
  the broken file and with the exception of \<open>tif.info()\<close> when it raises; either way it has
  no row for the second key, which a run over the second key alone records.
\<close>

theorem malformed_descriptor_stops_batch:
  "read_metadata broken_stack = Inl UnpackValueError
   \<and> batch sample_info sample_bucket empty_state [''Scan049/broken.tif'', ''Scan050/Fused.tif''] =
       (empty_state\<lparr>tif_files := [''Scan049/broken.tif''], tempfiles := 1,
          downloads := [''Scan049/broken.tif'']\<rparr>, Some UnpackValueError)
   \<and> batch raising_info sample_bucket empty_state [''Scan049/broken.tif'', ''Scan050/Fused.tif''] =
       (empty_state\<lparr>tif_files := [''Scan049/broken.tif''], tempfiles := 1,
          downloads := [''Scan049/broken.tif'']\<rparr>, Some InfoError)
   \<and> batch sample_info sample_bucket empty_state [''Scan050/Fused.tif''] = (populated_state, None)
   \<and> rows_of ''Scan050/Fused.tif''
        (empty_state\<lparr>tif_files := [''Scan049/broken.tif''], tempfiles := 1,
          downloads := [''Scan049/broken.tif'']\<rparr>) = []
   \<and> rows_of ''Scan050/Fused.tif'' populated_state = [sample_row]"
  using read_metadata_broken_stack broken_run[of "[''Scan050/Fused.tif'']"] first_run
    broken_run_info[of "[''Scan050/Fused.tif'']"]
  by (simp add: rows_of_def inventory_rows_def empty_state_def populated_state_def sample_row_def)

text \<open>
  Claim C3. When the file is read and a line of its description splits into the key
  \<open>hyperstack\<close> and a value, the dictionary holds under \<open>hyperstack\<close> the boolean \<open>bool\<close> of
  that value, which is \<open>True\<close> for every non-empty value whatever it says, provided no later
  line and no later tag assigns \<open>hyperstack\<close> again. A file whose description is the one
  line \<open>hyperstack=False\<close> is read with \<open>hyperstack\<close> being \<open>True\<close>.
\<close>

theorem hyperstack_nonempty_true:
  "(read_metadata (Tiff pages) = Inr d \<and> concat pages = ts1 @ tag # ts2
      \<and> name tag = ''image_description'' \<and> value tag = Bytes b
      \<and> butlast (split_on CHR ''\<newline>'' b) = ls @ item # ms
      \<and> split_on CHR ''='' item = [''hyperstack'', v]
      \<and> ''hyperstack'' \<notin> item_key ` set ms
      \<and> (\<forall>t \<in> set ts2. \<not> writes_key ''hyperstack'' t) \<longrightarrow>
    map_of d ''hyperstack'' = Some (VBool (v \<noteq> []))
    \<and> (v \<noteq> [] \<longrightarrow> map_of d ''hyperstack'' = Some (VBool True)))
   \<and> read_metadata (Tiff [[\<lparr>name = ''image_description'',
          value = Bytes ''hyperstack=False\<newline>'', str_value = sv\<rparr>]])
       = Inr [(''hyperstack'', VBool True)]"
  (is "(?H \<longrightarrow> ?C) \<and> ?E")
proof (rule conjI)
  show "?H \<longrightarrow> ?C"
  proof (rule impI)
  assume a: ?H
  then have rm: "read_metadata (Tiff pages) = Inr d" and cp: "concat pages = ts1 @ tag # ts2"
    and nm: "name tag = ''image_description''" and vl: "value tag = Bytes b"
    and ln: "butlast (split_on CHR ''\<newline>'' b) = ls @ item # ms"
    and sp: "split_on CHR ''='' item = [''hyperstack'', v]"
    and lt: "''hyperstack'' \<notin> item_key ` set ms"
    and tg: "\<forall>t \<in> set ts2. \<not> writes_key ''hyperstack'' t"
    by simp_all
  have "read_tags [] (concat pages) = Inr d"
    using rm by (simp add: read_metadata_def read_pages_concat)
  then have "read_tags [] (ts1 @ tag # ts2) = Inr d" by (simp only: cp)
  then obtain d1 d2 where r: "read_tags [] ts1 = Inr d1" "read_tag d1 tag = Inr d2"
      "read_tags d2 ts2 = Inr d"
    by (rule read_tags_split)
  have "map_of d2 ''hyperstack'' = Some (VBool (v \<noteq> []))"
    using read_tag_last_line[OF r(2) nm vl ln sp lt] by simp
  moreover have "map_of d ''hyperstack'' = map_of d2 ''hyperstack''"
    by (rule read_tags_other_key[OF r(3) tg])
  ultimately show ?C by simp
  qed
next
  show ?E
    by (simp add: read_metadata_def read_tag_def decode_ascii_def read_item_def py_bool_def)
qed

text \<open>
  Claim C3 at a file whose description has the lines \<open>hyperstack=false\<close> and \<open>images=3\<close>,
  followed by another tag.
\<close>

theorem hyperstack_nonempty_true_witness:
  "read_metadata (Tiff [[
      \<lparr>name = ''image_description'', value = Bytes ''hyperstack=false\<newline>images=3\<newline>'',
       str_value = []\<rparr>,
      \<lparr>name = ''strip_offsets'', value = Tuple [8], str_value = ''(8,)''\<rparr>]])
     = Inr [(''hyperstack'', VBool True), (''images'', VInt 3), (''strip_offsets'', VStr ''(8,)'')]
   \<and> butlast (split_on CHR ''\<newline>'' ''hyperstack=false\<newline>images=3\<newline>'')
       = [] @ ''hyperstack=false'' # [''images=3'']
   \<and> split_on CHR ''='' ''hyperstack=false'' = [''hyperstack'', ''false'']
   \<and> ''hyperstack'' \<notin> item_key ` set [''images=3'']
   \<and> \<not> writes_key ''hyperstack''
         \<lparr>name = ''strip_offsets'', value = Tuple [8], str_value = ''(8,)''\<rparr>
   \<and> ''false'' \<noteq> []
   \<and> map_of [(''hyperstack'', VBool True), (''images'', VInt 3),
         (''strip_offsets'', VStr ''(8,)'')] ''hyperstack'' = Some (VBool True)"
proof -
  let ?t = "\<lparr>name = ''image_description'',
      value = Bytes ''hyperstack=false\<newline>images=3\<newline>'', str_value = []\<rparr>"
  let ?o = "\<lparr>name = ''strip_offsets'', value = Tuple [8], str_value = ''(8,)''\<rparr>"
  let ?d = "[(''hyperstack'', VBool True), (''images'', VInt 3), (''strip_offsets'', VStr ''(8,)'')]"
  have h1: "read_metadata (Tiff [[?t, ?o]]) = Inr ?d"
    by (simp add: read_metadata_def read_tag_def decode_ascii_def read_item_def py_bool_def
          py_int_def py_strip_def py_isspace_def is_digit_def digit_val_def)
  have h2: "concat [[?t, ?o]] = [] @ ?t # [?o]" by simp
  have h3: "name ?t = ''image_description'' \<and> value ?t = Bytes ''hyperstack=false\<newline>images=3\<newline>''"
    by simp
  have h4: "butlast (split_on CHR ''\<newline>'' ''hyperstack=false\<newline>images=3\<newline>'')
       = [] @ ''hyperstack=false'' # [''images=3'']"
    by simp
  have h5: "split_on CHR ''='' ''hyperstack=false'' = [''hyperstack'', ''false'']" by simp
  have h6: "''hyperstack'' \<notin> item_key ` set [''images=3'']" by (simp add: item_key_def)
  have h7: "\<not> writes_key ''hyperstack'' ?o" by (simp add: writes_key_def)
  then have h8: "\<forall>t \<in> set [?o]. \<not> writes_key ''hyperstack'' t" by simp
  have h9: "''false'' \<noteq> []" by simp
  have "map_of ?d ''hyperstack'' = Some (VBool True)"
    using hyperstack_nonempty_true[where pages = "[[?t, ?o]]" and d = ?d and ?ts1.0 = "[]"
        and tag = ?t and ?ts2.0 = "[?o]" and b = "''hyperstack=false\<newline>images=3\<newline>''"
        and ls = "[]" and item = "''hyperstack=false''" and ms = "[''images=3'']"
        and v = "''false''"]
      h1 h2 h3 h4 h5 h6 h8 h9
    by blast
  then show ?thesis using h1 h4 h5 h6 h7 h9 by blast
qed

text \<open>
  Claim C4. When \<open>read_metadata\<close> returns a dictionary, \<open>process_tif\<close> returns a row with
  exactly the six columns \<open>image_width\<close>, \<open>image_length\<close>, \<open>channels\<close>, \<open>slices\<close>,
  \<open>hyperstack\<close>, \<open>sizeInGB\<close>, in this order, each holding the dictionary's value for the
  key, or \<open>None\<close> when the key is missing; it raises nothing, and the only file it writes is
  the dump of the whole dictionary.
\<close>

theorem reduced_row_six_fields:
  assumes "read_metadata file = Inr d"
  shows "process_tif files file label =
    Inr ((label,
          [(''image_width'', map_of d ''image_width''), (''image_length'', map_of d ''image_length''),
           (''channels'', map_of d ''channels''), (''slices'', map_of d ''slices''),
           (''hyperstack'', map_of d ''hyperstack''), (''sizeInGB'', map_of d ''sizeInGB'')]),
         files(metadata_filename label \<mapsto> d))"
  using assms by (simp add: process_tif_def small_dict_important)

text \<open>
  Claim C4 at a file with the single tag \<open>image_width\<close>: five of the six cells are \<open>None\<close>.
\<close>

theorem reduced_row_six_fields_witness:
  "read_metadata (Tiff [[\<lparr>name = ''image_width'', value = Other, str_value = ''2048''\<rparr>]])
     = Inr [(''image_width'', VStr ''2048'')]
   \<and> process_tif Map.empty (Tiff [[\<lparr>name = ''image_width'', value = Other, str_value = ''2048''\<rparr>]]) ''Scan050/Fused.tif'' =
    Inr ((''Scan050/Fused.tif'',
          [(''image_width'', Some (VStr ''2048'')), (''image_length'', None),
           (''channels'', None), (''slices'', None),
           (''hyperstack'', None), (''sizeInGB'', None)]),
         Map.empty(metadata_filename ''Scan050/Fused.tif'' \<mapsto> [(''image_width'', VStr ''2048'')]))"
proof -
  have h: "read_metadata (Tiff [[\<lparr>name = ''image_width'', value = Other, str_value = ''2048''\<rparr>]])
     = Inr [(''image_width'', VStr ''2048'')]"
    by (simp add: read_metadata_def read_tag_def)
  show ?thesis
    using h reduced_row_six_fields[OF h, of Map.empty "''Scan050/Fused.tif''"] by simp
qed

text \<open>
  Claim C5. The description \<open>images=3\nchannels=2\nslices=10\n\<close> expands to the three
  integer fields \<open>images = 3\<close>, \<open>channels = 2\<close>, \<open>slices = 10\<close>. In general the lines read
  are the parts between newlines without the last one, so whatever follows the last newline
  is dropped, empty or not; and for the keys \<open>images\<close>, \<open>channels\<close>, \<open>slices\<close> the value is
  stored as the integer that \<open>int\<close> reads, or the line fails with the \<open>ValueError\<close> of \<open>int\<close>:
  \<open>int\<close> reads a value with blanks around it, and refuses one that starts with the
  separator \<open>0x1c\<close>.
\<close>

theorem descriptor_expansion:
  "read_metadata (Tiff [[\<lparr>name = ''image_description'',
        value = Bytes ''images=3\<newline>channels=2\<newline>slices=10\<newline>'', str_value = sv\<rparr>]])
     = Inr [(''images'', VInt 3), (''channels'', VInt 2), (''slices'', VInt 10)]
   \<and> (decode_ascii b = Inr s \<longrightarrow>
        read_tag d \<lparr>name = ''image_description'', value = Bytes b, str_value = sv\<rparr>
          = read_items d (butlast (split_on CHR ''\<newline>'' s)))
   \<and> (CHR ''\<newline>'' \<notin> set t \<longrightarrow>
        butlast (split_on CHR ''\<newline>'' (s @ CHR ''\<newline>'' # t)) = split_on CHR ''\<newline>'' s)
   \<and> (split_on CHR ''='' item = [k, v] \<and> k \<in> {''images'', ''channels'', ''slices''} \<longrightarrow>
        (\<forall>n. py_int v = Inr n \<longrightarrow> read_item d item = Inr (AList.update k (VInt n) d))
        \<and> ((\<exists>e. py_int v = Inl e) \<longrightarrow> read_item d item = Inl IntValueError))
   \<and> read_item d ''slices= 7 '' = Inr (AList.update ''slices'' (VInt 7) d)
   \<and> read_item d (''slices='' @ [CHR 0x1C] @ ''7'') = Inl IntValueError"
proof -
  have 1: "read_metadata (Tiff [[\<lparr>name = ''image_description'',
        value = Bytes ''images=3\<newline>channels=2\<newline>slices=10\<newline>'', str_value = sv\<rparr>]])
     = Inr [(''images'', VInt 3), (''channels'', VInt 2), (''slices'', VInt 10)]"
    by (simp add: read_metadata_def read_tag_def decode_ascii_def read_item_def py_int_def
          py_strip_def py_isspace_def is_digit_def digit_val_def)
  have 4: "split_on CHR ''='' item = [k, v] \<and> k \<in> {''images'', ''channels'', ''slices''} \<longrightarrow>
        (\<forall>n. py_int v = Inr n \<longrightarrow> read_item d item = Inr (AList.update k (VInt n) d))
        \<and> ((\<exists>e. py_int v = Inl e) \<longrightarrow> read_item d item = Inl IntValueError)"
    by (auto simp: read_item_int dest: py_int_error)
  have 5: "read_item d ''slices= 7 '' = Inr (AList.update ''slices'' (VInt 7) d)"
    by (simp add: read_item_def py_int_def py_strip_def py_isspace_def is_digit_def digit_val_def)
  have 6: "read_item d (''slices='' @ [CHR 0x1C] @ ''7'') = Inl IntValueError"
    by (simp add: read_item_def py_int_def py_strip_def py_isspace_def is_digit_def digit_val_def)
  show ?thesis
    using 1 4 5 6 by (simp add: read_tag_description butlast_split_on)
qed

text \<open>
  Claim C5 at a description whose last line, \<open>unit=micron\<close>, has no newline after it.
\<close>

theorem descriptor_expansion_witness:
  "decode_ascii ''slices=10\<newline>unit=micron'' = Inr ''slices=10\<newline>unit=micron''
   \<and> CHR ''\<newline>'' \<notin> set ''unit=micron''
   \<and> split_on CHR ''='' ''slices=10'' = [''slices'', ''10'']
   \<and> ''slices'' \<in> {''images'', ''channels'', ''slices''}
   \<and> py_int ''10'' = Inr 10
   \<and> read_tag [] \<lparr>name = ''image_description'', value = Bytes ''slices=10\<newline>unit=micron'', str_value = []\<rparr>
        = read_items [] (butlast (split_on CHR ''\<newline>'' ''slices=10\<newline>unit=micron''))
   \<and> butlast (split_on CHR ''\<newline>'' (''slices=10'' @ CHR ''\<newline>'' # ''unit=micron'')) = split_on CHR ''\<newline>'' ''slices=10''
   \<and> read_item [] ''slices=10'' = Inr [(''slices'', VInt 10)]"
proof -
  have h1: "decode_ascii ''slices=10\<newline>unit=micron'' = Inr ''slices=10\<newline>unit=micron''"
    by (simp add: decode_ascii_def)
  have h2: "CHR ''\<newline>'' \<notin> set ''unit=micron''" by simp
  have h3: "split_on CHR ''='' ''slices=10'' = [''slices'', ''10'']" by simp
  have h4: "''slices'' \<in> {''images'', ''channels'', ''slices''}" by simp
  have h5: "py_int ''10'' = Inr 10"
    by (simp add: py_int_def py_strip_def py_isspace_def is_digit_def digit_val_def)
  note t = descriptor_expansion[of "[]" "''slices=10\<newline>unit=micron''" "''slices=10\<newline>unit=micron''" "[]"
      "''unit=micron''" "''slices=10''" "''slices''" "''10''"]
  have c2: "read_tag [] \<lparr>name = ''image_description'', value = Bytes ''slices=10\<newline>unit=micron'', str_value = []\<rparr>
        = read_items [] (butlast (split_on CHR ''\<newline>'' ''slices=10\<newline>unit=micron''))"
    using t h1 by blast
  note t' = descriptor_expansion[of "[]" "''x''" "''slices=10''" "[]"
      "''unit=micron''" "''slices=10''" "''slices''" "''10''"]
  have c3: "butlast (split_on CHR ''\<newline>'' (''slices=10'' @ CHR ''\<newline>'' # ''unit=micron'')) = split_on CHR ''\<newline>'' ''slices=10''"
    using t' h2 by blast
  have c4: "read_item [] ''slices=10'' = Inr (AList.update ''slices'' (VInt 10) [])"
    using t h3 h4 h5 by blast
  show ?thesis using h1 h2 h3 h4 h5 c2 c3 c4 by simp
qed



text \<open>
  Claim C7. A key that contains one of the names of \<open>exclude_list\<close>, or that does not end
  in \<open>tif\<close>, leaves the state as it is: no list grows, no temporary file is made, nothing is
  downloaded, no row and no dump is written. Over a whole listing, whatever else it holds,
  the loop makes no download and no row for such a key and puts it in neither list, and
  every dump it writes is the dump of another key.
\<close>

theorem filtered_key_skipped:
  assumes "(\<exists>n \<in> set exclude_list. sublist n key) \<or> \<not> suffix ''tif'' key"
  shows "process_key info B s key = (s, None)
    \<and> (batch info B s keys = (s', r) \<longrightarrow>
         downloads_of key s' = downloads_of key s
       \<and> rows_of key s' = rows_of key s
       \<and> filter (\<lambda>x. x = key) (tif_files s') = filter (\<lambda>x. x = key) (tif_files s)
       \<and> filter (\<lambda>x. x = key) (tif_files_done s') = filter (\<lambda>x. x = key) (tif_files_done s)
       \<and> (\<forall>p. metadata_files s' p \<noteq> metadata_files s p \<longrightarrow>
             (\<exists>k \<in> set keys. k \<noteq> key \<and> p = metadata_filename k)))"
proof -
  have f: "exclude_loop key False exclude_list \<or> \<not> suffix ''tif'' key"
    using assms by (simp add: exclude_loop_iff)
  have 1: "process_key info B s key = (s, None)" using f by (rule process_key_filtered)
  have 2: "batch info B s keys = (s', r) \<longrightarrow>
         downloads_of key s' = downloads_of key s
       \<and> rows_of key s' = rows_of key s
       \<and> filter (\<lambda>x. x = key) (tif_files s') = filter (\<lambda>x. x = key) (tif_files s)
       \<and> filter (\<lambda>x. x = key) (tif_files_done s') = filter (\<lambda>x. x = key) (tif_files_done s)"
    using batch_filtered[OF _ f] by blast
  have 3: "batch info B s keys = (s', r) \<longrightarrow> (\<forall>p. metadata_files s' p \<noteq> metadata_files s p \<longrightarrow>
             (\<exists>k \<in> set keys. k \<noteq> key \<and> p = metadata_filename k))"
  proof (intro impI allI)
    fix p
    assume b: "batch info B s keys = (s', r)" and ne: "metadata_files s' p \<noteq> metadata_files s p"
    from batch_files[OF b ne] obtain k where k: "k \<in> set keys" "p = metadata_filename k"
      "\<not> exclude_loop k False exclude_list" "suffix ''tif'' k" by blast
    then have "k \<noteq> key" using f by auto
    then show "\<exists>k \<in> set keys. k \<noteq> key \<and> p = metadata_filename k" using k by blast
  qed
  show ?thesis using 1 2 3 by blast
qed

text \<open>
  Claim C7 at a key in an excluded folder and at a key that is no \<open>tif\<close> file.
\<close>

theorem filtered_key_skipped_witness:
  "sublist ''Lepto_fovea'' ''Lepto_fovea/img_0001.tif''
   \<and> process_key sample_info sample_bucket empty_state ''Lepto_fovea/img_0001.tif'' = (empty_state, None)
   \<and> \<not> suffix ''tif'' ''Scan050/notes.txt''
   \<and> process_key sample_info sample_bucket empty_state ''Scan050/notes.txt'' = (empty_state, None)"
proof -
  have s: "sublist ''Lepto_fovea'' ''Lepto_fovea/img_0001.tif''" by (simp add: sublist_code)
  then have h1: "(\<exists>n \<in> set exclude_list. sublist n ''Lepto_fovea/img_0001.tif'')
      \<or> \<not> suffix ''tif'' ''Lepto_fovea/img_0001.tif''"
    by (simp add: exclude_list_def)
  have t: "\<not> suffix ''tif'' ''Scan050/notes.txt''" by (simp add: suffix_to_prefix)
  then have h2: "(\<exists>n \<in> set exclude_list. sublist n ''Scan050/notes.txt'')
      \<or> \<not> suffix ''tif'' ''Scan050/notes.txt''"
    by simp
  show ?thesis
    using s t
      filtered_key_skipped[OF h1, of sample_info sample_bucket empty_state "[]" empty_state None]
      filtered_key_skipped[OF h2, of sample_info sample_bucket empty_state "[]" empty_state None]
    by blast
qed

text \<open>
  Claim C8, as amended. The dictionary is assigned to in the order in which the tags are
  met, pages in turn and the tags of a page in turn, and a later assignment replaces an
  earlier one, whichever kind of tag makes it. For a tag at any place of a file that is
  read: a key it does not assign to keeps the value it had before the tag; a tag other than
  the description and the byte counts leaves its rendered value under its own name; the
  byte counts leave the size under \<open>sizeInGB\<close>; the description leaves, for the key of a
  line that no later line of it has, the value of that line (an integer, a boolean or the
  string, by the key), whatever the dictionary held under that key before; and what the
  tag leaves under a key is in the final dictionary when no later tag assigns to that key.
  So a key of the description keeps the description's value exactly as long as no tag of
  the same name follows.
\<close>

theorem last_write_wins:
  assumes "read_metadata (Tiff pages) = Inr d" and "concat pages = ts1 @ tag # ts2"
  shows "(\<exists>d1 d2. read_tags [] ts1 = Inr d1 \<and> read_tag d1 tag = Inr d2 \<and> read_tags d2 ts2 = Inr d
     \<and> ((\<forall>t \<in> set ts2. \<not> writes_key k t) \<longrightarrow> map_of d k = map_of d2 k)
     \<and> (\<not> writes_key k tag \<longrightarrow> map_of d2 k = map_of d1 k)
     \<and> (name tag \<noteq> ''image_description'' \<and> name tag \<noteq> ''strip_byte_counts'' \<longrightarrow>
          map_of d2 (name tag) = Some (VStr (str_value tag)))
     \<and> (name tag = ''strip_byte_counts'' \<and> value tag = Tuple (n # ns) \<longrightarrow>
          (\<exists>x. py_float n = Inr x
             \<and> map_of d2 ''sizeInGB'' = Some (VFloat (py_truediv x 1000000000))))
     \<and> (name tag = ''image_description'' \<and> value tag = Bytes b
          \<and> butlast (split_on CHR ''\<newline>'' b) = ls @ item # ms
          \<and> split_on CHR ''='' item = [k, v] \<and> k \<notin> item_key ` set ms \<longrightarrow>
          (k \<in> {''images'', ''channels'', ''slices''} \<longrightarrow>
             (\<exists>i. py_int v = Inr i \<and> map_of d2 k = Some (VInt i)))
        \<and> (k = ''hyperstack'' \<longrightarrow> map_of d2 k = Some (VBool (v \<noteq> [])))
        \<and> (k \<notin> {''images'', ''channels'', ''slices'', ''hyperstack''} \<longrightarrow>
             map_of d2 k = Some (VStr v))))
   \<and> read_metadata (Tiff [[
        \<lparr>name = ''software'', value = Other, str_value = ''Fiji''\<rparr>,
        \<lparr>name = ''image_description'', value = Bytes ''software=ImageJ\<newline>'',
         str_value = []\<rparr>]])
       = Inr [(''software'', VStr ''ImageJ'')]
   \<and> read_metadata (Tiff [[
        \<lparr>name = ''image_description'', value = Bytes ''unit=micron\<newline>unit=mm\<newline>'',
         str_value = []\<rparr>]])
       = Inr [(''unit'', VStr ''mm'')]"
proof -
  have "read_tags [] (concat pages) = Inr d"
    using assms(1) by (simp add: read_metadata_def read_pages_concat)
  then have "read_tags [] (ts1 @ tag # ts2) = Inr d" by (simp only: assms(2))
  then obtain d1 d2 where r: "read_tags [] ts1 = Inr d1" "read_tag d1 tag = Inr d2"
      "read_tags d2 ts2 = Inr d"
    by (rule read_tags_split)
  have a: "(\<forall>t \<in> set ts2. \<not> writes_key k t) \<longrightarrow> map_of d k = map_of d2 k"
    using read_tags_other_key[OF r(3)] by simp
  have a': "\<not> writes_key k tag \<longrightarrow> map_of d2 k = map_of d1 k"
    using read_tag_other_key[OF r(2)] by simp
  have b: "name tag \<noteq> ''image_description'' \<and> name tag \<noteq> ''strip_byte_counts'' \<longrightarrow>
          map_of d2 (name tag) = Some (VStr (str_value tag))"
    using r(2) by (auto simp: read_tag_def update_conv')
  have c: "name tag = ''strip_byte_counts'' \<and> value tag = Tuple (n # ns) \<longrightarrow>
          (\<exists>x. py_float n = Inr x
             \<and> map_of d2 ''sizeInGB'' = Some (VFloat (py_truediv x 1000000000)))"
    using r(2) by (auto simp: read_tag_def update_conv' split: sum.splits)
  have e: "name tag = ''image_description'' \<and> value tag = Bytes b
          \<and> butlast (split_on CHR ''\<newline>'' b) = ls @ item # ms
          \<and> split_on CHR ''='' item = [k, v] \<and> k \<notin> item_key ` set ms \<longrightarrow>
          (k \<in> {''images'', ''channels'', ''slices''} \<longrightarrow>
             (\<exists>i. py_int v = Inr i \<and> map_of d2 k = Some (VInt i)))
        \<and> (k = ''hyperstack'' \<longrightarrow> map_of d2 k = Some (VBool (v \<noteq> [])))
        \<and> (k \<notin> {''images'', ''channels'', ''slices'', ''hyperstack''} \<longrightarrow>
             map_of d2 k = Some (VStr v))"
  proof (rule impI)
    assume h: "name tag = ''image_description'' \<and> value tag = Bytes b
          \<and> butlast (split_on CHR ''\<newline>'' b) = ls @ item # ms
          \<and> split_on CHR ''='' item = [k, v] \<and> k \<notin> item_key ` set ms"
    then have nm: "name tag = ''image_description''" and vl: "value tag = Bytes b"
      and ln: "butlast (split_on CHR ''\<newline>'' b) = ls @ item # ms"
      and sp: "split_on CHR ''='' item = [k, v]" and lt: "k \<notin> item_key ` set ms"
      by simp_all
    show "(k \<in> {''images'', ''channels'', ''slices''} \<longrightarrow>
             (\<exists>i. py_int v = Inr i \<and> map_of d2 k = Some (VInt i)))
        \<and> (k = ''hyperstack'' \<longrightarrow> map_of d2 k = Some (VBool (v \<noteq> [])))
        \<and> (k \<notin> {''images'', ''channels'', ''slices'', ''hyperstack''} \<longrightarrow>
             map_of d2 k = Some (VStr v))"
      by (rule read_tag_last_line[OF r(2) nm vl ln sp lt])
  qed
  have x1: "read_metadata (Tiff [[
        \<lparr>name = ''software'', value = Other, str_value = ''Fiji''\<rparr>,
        \<lparr>name = ''image_description'', value = Bytes ''software=ImageJ\<newline>'',
         str_value = []\<rparr>]])
       = Inr [(''software'', VStr ''ImageJ'')]"
    by (simp add: read_metadata_def read_tag_def decode_ascii_def read_item_def)
  have x2: "read_metadata (Tiff [[
        \<lparr>name = ''image_description'', value = Bytes ''unit=micron\<newline>unit=mm\<newline>'',
         str_value = []\<rparr>]])
       = Inr [(''unit'', VStr ''mm'')]"
    by (simp add: read_metadata_def read_tag_def decode_ascii_def read_item_def)
  have "\<exists>d1 d2. read_tags [] ts1 = Inr d1 \<and> read_tag d1 tag = Inr d2 \<and> read_tags d2 ts2 = Inr d
     \<and> ((\<forall>t \<in> set ts2. \<not> writes_key k t) \<longrightarrow> map_of d k = map_of d2 k)
     \<and> (\<not> writes_key k tag \<longrightarrow> map_of d2 k = map_of d1 k)
     \<and> (name tag \<noteq> ''image_description'' \<and> name tag \<noteq> ''strip_byte_counts'' \<longrightarrow>
          map_of d2 (name tag) = Some (VStr (str_value tag)))
     \<and> (name tag = ''strip_byte_counts'' \<and> value tag = Tuple (n # ns) \<longrightarrow>
          (\<exists>x. py_float n = Inr x
             \<and> map_of d2 ''sizeInGB'' = Some (VFloat (py_truediv x 1000000000))))
     \<and> (name tag = ''image_description'' \<and> value tag = Bytes b
          \<and> butlast (split_on CHR ''\<newline>'' b) = ls @ item # ms
          \<and> split_on CHR ''='' item = [k, v] \<and> k \<notin> item_key ` set ms \<longrightarrow>
          (k \<in> {''images'', ''channels'', ''slices''} \<longrightarrow>
             (\<exists>i. py_int v = Inr i \<and> map_of d2 k = Some (VInt i)))
        \<and> (k = ''hyperstack'' \<longrightarrow> map_of d2 k = Some (VBool (v \<noteq> [])))
        \<and> (k \<notin> {''images'', ''channels'', ''slices'', ''hyperstack''} \<longrightarrow>
             map_of d2 k = Some (VStr v)))"
    by (rule exI[of _ d1], rule exI[of _ d2]) (intro conjI r a a' b c e)
  then show ?thesis using x1 x2 by (intro conjI)
qed

text \<open>
  The amended claim at a file where the tag \<open>software\<close> comes before a description with the
  line \<open>software=ImageJ\<close>: the description, met later, replaces the value of the tag.
\<close>

theorem last_write_wins_witness:
  "read_metadata (Tiff [[
      \<lparr>name = ''software'', value = Other, str_value = ''Fiji''\<rparr>,
      \<lparr>name = ''image_description'', value = Bytes ''software=ImageJ\<newline>'', str_value = []\<rparr>,
      \<lparr>name = ''strip_offsets'', value = Tuple [8], str_value = ''(8,)''\<rparr>]])
     = Inr [(''software'', VStr ''ImageJ''), (''strip_offsets'', VStr ''(8,)'')]
   \<and> read_tags [] [\<lparr>name = ''software'', value = Other, str_value = ''Fiji''\<rparr>]
     = Inr [(''software'', VStr ''Fiji'')]
   \<and> butlast (split_on CHR ''\<newline>'' ''software=ImageJ\<newline>'') = [] @ ''software=ImageJ'' # []
   \<and> split_on CHR ''='' ''software=ImageJ'' = [''software'', ''ImageJ'']
   \<and> \<not> writes_key ''software''
         \<lparr>name = ''strip_offsets'', value = Tuple [8], str_value = ''(8,)''\<rparr>
   \<and> map_of [(''software'', VStr ''ImageJ''), (''strip_offsets'', VStr ''(8,)'')] ''software''
     = Some (VStr ''ImageJ'')"
proof -
  let ?u = "\<lparr>name = ''software'', value = Other, str_value = ''Fiji''\<rparr>"
  let ?t = "\<lparr>name = ''image_description'', value = Bytes ''software=ImageJ\<newline>'',
      str_value = []\<rparr>"
  let ?o = "\<lparr>name = ''strip_offsets'', value = Tuple [8], str_value = ''(8,)''\<rparr>"
  let ?d = "[(''software'', VStr ''ImageJ''), (''strip_offsets'', VStr ''(8,)'')]"
  have h1: "read_metadata (Tiff [[?u, ?t, ?o]]) = Inr ?d"
    by (simp add: read_metadata_def read_tag_def decode_ascii_def read_item_def)
  have h2: "concat [[?u, ?t, ?o]] = [?u] @ ?t # [?o]" by simp
  have h3: "read_tags [] [?u] = Inr [(''software'', VStr ''Fiji'')]" by (simp add: read_tag_def)
  have h4: "butlast (split_on CHR ''\<newline>'' ''software=ImageJ\<newline>'') = [] @ ''software=ImageJ'' # []"
    by simp
  have h5: "split_on CHR ''='' ''software=ImageJ'' = [''software'', ''ImageJ'']" by simp
  have h6: "''software'' \<notin> item_key ` set []" by simp
  have h7: "\<not> writes_key ''software'' ?o" by (simp add: writes_key_def)
  then have h8: "\<forall>t \<in> set [?o]. \<not> writes_key ''software'' t" by simp
  have h9: "name ?t = ''image_description'' \<and> value ?t = Bytes ''software=ImageJ\<newline>''" by simp
  have h10: "''software'' \<notin> {''images'', ''channels'', ''slices'', ''hyperstack''}" by simp
  note t = last_write_wins[OF h1 h2, where k = "''software''" and b = "''software=ImageJ\<newline>''"
      and ls = "[]" and item = "''software=ImageJ''" and ms = "[]" and v = "''ImageJ''"
      and n = 0 and ns = "[]", THEN conjunct1]
  from t obtain d1 d2 where
    "read_tags [] [?u] = Inr d1" and "read_tag d1 ?t = Inr d2" and "read_tags d2 [?o] = Inr ?d"
    and k: "(\<forall>t \<in> set [?o]. \<not> writes_key ''software'' t) \<longrightarrow>
          map_of ?d ''software'' = map_of d2 ''software''"
    and "\<not> writes_key ''software'' ?t \<longrightarrow> map_of d2 ''software'' = map_of d1 ''software''"
    and "name ?t \<noteq> ''image_description'' \<and> name ?t \<noteq> ''strip_byte_counts'' \<longrightarrow>
          map_of d2 (name ?t) = Some (VStr (str_value ?t))"
    and "name ?t = ''strip_byte_counts'' \<and> value ?t = Tuple (0 # []) \<longrightarrow>
          (\<exists>x. py_float 0 = Inr x
             \<and> map_of d2 ''sizeInGB'' = Some (VFloat (py_truediv x 1000000000)))"
    and w: "name ?t = ''image_description'' \<and> value ?t = Bytes ''software=ImageJ\<newline>''
          \<and> butlast (split_on CHR ''\<newline>'' ''software=ImageJ\<newline>'') = [] @ ''software=ImageJ'' # []
          \<and> split_on CHR ''='' ''software=ImageJ'' = [''software'', ''ImageJ'']
          \<and> ''software'' \<notin> item_key ` set [] \<longrightarrow>
          (''software'' \<in> {''images'', ''channels'', ''slices''} \<longrightarrow>
             (\<exists>i. py_int ''ImageJ'' = Inr i \<and> map_of d2 ''software'' = Some (VInt i)))
        \<and> (''software'' = ''hyperstack'' \<longrightarrow>
             map_of d2 ''software'' = Some (VBool (''ImageJ'' \<noteq> [])))
        \<and> (''software'' \<notin> {''images'', ''channels'', ''slices'', ''hyperstack''} \<longrightarrow>
             map_of d2 ''software'' = Some (VStr ''ImageJ''))"
    by (elim exE conjE) (rule that)
  have "map_of d2 ''software'' = Some (VStr ''ImageJ'')"
    using w by simp
  then have "map_of ?d ''software'' = Some (VStr ''ImageJ'')" using k h7 by simp
  then show ?thesis using h1 h3 h4 h5 h7 by (intro conjI)
qed

text \<open>
  Claim C8 as stated fails: with the tag \<open>software\<close> after a description that has a line
  \<open>software=ImageJ\<close>, as the tags lie in a file, the dictionary holds the tag's value; the
  description's value is held only in the opposite order.
\<close>

theorem directory_tag_overrides_descriptor:
  "read_metadata (Tiff [[
      \<lparr>name = ''image_description'', value = Bytes ''software=ImageJ\<newline>'', str_value = []\<rparr>,
      \<lparr>name = ''software'', value = Other, str_value = ''Fiji''\<rparr>]])
     = Inr [(''software'', VStr ''Fiji'')]
   \<and> read_metadata (Tiff [[
      \<lparr>name = ''software'', value = Other, str_value = ''Fiji''\<rparr>,
      \<lparr>name = ''image_description'', value = Bytes ''software=ImageJ\<newline>'', str_value = []\<rparr>]])
     = Inr [(''software'', VStr ''ImageJ'')]"
  by (simp add: read_metadata_def read_tag_def decode_ascii_def read_item_def)

text \<open>
  Claim C9, as amended. The dump of a label is the file under \<open>data/metadata\<close> named by
  the last path segment of the label cut at its first dot, with \<open>_metadata.txt\<close> appended;
  this is the segment without its extension when the segment has at most one dot. The file
  holds the whole dictionary that \<open>read_metadata\<close> returned.
\<close>

theorem archive_entry_name:
  "metadata_filename label =
     ''data/metadata/'' @ takeWhile (\<lambda>c. c \<noteq> CHR ''.'') (last (split_on CHR ''/'' label))
       @ ''_metadata.txt''
   \<and> (length (filter (\<lambda>c. c = CHR ''.'') (last (split_on CHR ''/'' label))) \<le> 1 \<longrightarrow>
        metadata_filename label = path_join METADATA (spec_archive_name label))
   \<and> (read_metadata file = Inr d \<longrightarrow>
        (\<exists>df files'. process_tif files file label = Inr (df, files')
           \<and> files' (metadata_filename label) = Some d))"
proof -
  let ?seg = "last (split_on CHR ''/'' label)"
  have ns: "CHR ''/'' \<notin> set ?seg" by (rule last_split_on)
  have hd1: "x = [] \<or> hd x \<noteq> CHR ''/''" if "set x \<subseteq> set ?seg" for x
    using that ns by (cases x) auto
  have "set (takeWhile (\<lambda>c. c \<noteq> CHR ''.'') ?seg) \<subseteq> set ?seg" by (auto dest: set_takeWhileD)
  then have tw: "takeWhile (\<lambda>c. c \<noteq> CHR ''.'') ?seg = [] \<or> hd (takeWhile (\<lambda>c. c \<noteq> CHR ''.'') ?seg) \<noteq> CHR ''/''"
    by (rule hd1)
  then have "takeWhile (\<lambda>c. c \<noteq> CHR ''.'') ?seg @ ''_metadata.txt'' = [] \<or>
    hd (takeWhile (\<lambda>c. c \<noteq> CHR ''.'') ?seg @ ''_metadata.txt'') \<noteq> CHR ''/''"
    by (cases "takeWhile (\<lambda>c. c \<noteq> CHR ''.'') ?seg") auto
  then have 1: "metadata_filename label =
     ''data/metadata/'' @ takeWhile (\<lambda>c. c \<noteq> CHR ''.'') ?seg @ ''_metadata.txt''"
    by (simp only: metadata_filename_def hd_split_on path_join_METADATA)
  have 2: "length (filter (\<lambda>c. c = CHR ''.'') ?seg) \<le> 1 \<longrightarrow>
        metadata_filename label = path_join METADATA (spec_archive_name label)"
    by (simp add: metadata_filename_def spec_archive_name_def hd_split_on strip_extension_one_dot)
  have 3: "read_metadata file = Inr d \<longrightarrow>
        (\<exists>df files'. process_tif files file label = Inr (df, files')
           \<and> files' (metadata_filename label) = Some d)"
    by (simp add: process_tif_def)
  show ?thesis using 1 2 3 by blast
qed

text \<open>
  The amended claim at the sample key.
\<close>

theorem archive_entry_name_witness:
  "length (filter (\<lambda>c. c = CHR ''.'') (last (split_on CHR ''/'' ''Scan050/Fused.tif''))) \<le> 1
   \<and> read_metadata sample_stack = Inr sample_dict
   \<and> metadata_filename ''Scan050/Fused.tif'' = ''data/metadata/Fused_metadata.txt''
   \<and> metadata_filename ''Scan050/Fused.tif'' = path_join METADATA (spec_archive_name ''Scan050/Fused.tif'')
   \<and> (\<exists>df files'. process_tif Map.empty sample_stack ''Scan050/Fused.tif'' = Inr (df, files')
           \<and> files' (metadata_filename ''Scan050/Fused.tif'') = Some sample_dict)"
proof -
  have h1: "length (filter (\<lambda>c. c = CHR ''.'') (last (split_on CHR ''/'' ''Scan050/Fused.tif''))) \<le> 1"
    by simp
  note t = archive_entry_name[of "''Scan050/Fused.tif''" sample_stack sample_dict Map.empty]
  have c1: "metadata_filename ''Scan050/Fused.tif'' = ''data/metadata/Fused_metadata.txt''"
    using t by simp
  show ?thesis using t h1 read_metadata_sample_stack c1 by blast
qed

text \<open>
  Claim C9 as stated fails for a segment with two dots: the name keeps nothing after the
  first dot, where stripping the extension would keep \<open>Fused.v2\<close>.
\<close>

theorem archive_name_cut_at_first_dot:
  "metadata_filename ''Scan050/Fused.v2.tif'' = ''data/metadata/Fused_metadata.txt''
   \<and> path_join METADATA (spec_archive_name ''Scan050/Fused.v2.tif'')
       = ''data/metadata/Fused.v2_metadata.txt''
   \<and> metadata_filename ''Scan050/Fused.v2.tif''
       \<noteq> path_join METADATA (spec_archive_name ''Scan050/Fused.v2.tif'')"
  by (simp add: metadata_filename_def spec_archive_name_def strip_extension_def METADATA_def
        path_join_def)

text \<open>
  Claim C10. \<open>sizeInGB\<close> comes from the first element of the byte counts alone: the
  other elements do not enter, and three strips of 10^9 bytes each are recorded as
  \<open>1.0\<close>, not as the \<open>3.0\<close> of their sum.
\<close>

theorem first_strip_only:
  "read_tag d \<lparr>name = ''strip_byte_counts'', value = Tuple (n # ns), str_value = sv\<rparr>
     = read_tag d \<lparr>name = ''strip_byte_counts'', value = Tuple [n], str_value = sv'\<rparr>
   \<and> read_tag d \<lparr>name = ''strip_byte_counts'', value = Tuple (n # ns), str_value = sv\<rparr>
     = (case py_float n of
          Inl e \<Rightarrow> Inl e
        | Inr x \<Rightarrow> Inr (AList.update ''sizeInGB'' (VFloat (round_double (x / 1000000000))) d))
   \<and> read_metadata (Tiff [[\<lparr>name = ''strip_byte_counts'',
          value = Tuple [1000000000, 1000000000, 1000000000], str_value = sv\<rparr>]])
       = Inr [(''sizeInGB'', VFloat 1)]
   \<and> read_metadata (Tiff [[\<lparr>name = ''strip_byte_counts'',
          value = Tuple [3000000000], str_value = sv'\<rparr>]])
       = Inr [(''sizeInGB'', VFloat 3)]"
proof -
  have f1: "py_float 1000000000 = Inr 1000000000"
    using py_float_exact[of 1000000000] by simp
  have f3: "py_float 3000000000 = Inr 3000000000"
    using py_float_exact[of 3000000000] by simp
  have r1: "round_double 1 = 1" using round_double_of_int[of 1] by simp
  have r3: "round_double 3 = 3" using round_double_of_int[of 3] by simp
  show ?thesis
    by (simp add: read_tag_byte_counts read_metadata_def py_truediv_def f1 f3 r1 r3
          split: sum.splits)
qed

text \<open>
  Claim C10 at three strips of 10^9 bytes.
\<close>

theorem first_strip_only_witness:
  "read_tag [] \<lparr>name = ''strip_byte_counts'', value = Tuple [1000000000, 1000000000, 1000000000],
      str_value = ''(1000000000, 1000000000, 1000000000)''\<rparr>
     = read_tag [] \<lparr>name = ''strip_byte_counts'', value = Tuple [1000000000],
         str_value = ''(1000000000,)''\<rparr>
   \<and> read_metadata (Tiff [[\<lparr>name = ''strip_byte_counts'',
          value = Tuple [1000000000, 1000000000, 1000000000],
          str_value = ''(1000000000, 1000000000, 1000000000)''\<rparr>]])
       = Inr [(''sizeInGB'', VFloat 1)]
   \<and> read_metadata (Tiff [[\<lparr>name = ''strip_byte_counts'',
          value = Tuple [3000000000], str_value = ''(3000000000,)''\<rparr>]])
       = Inr [(''sizeInGB'', VFloat 3)]"
  using first_strip_only[of "[]" 1000000000 "[1000000000, 1000000000]"
      "''(1000000000, 1000000000, 1000000000)''" "''(1000000000,)''"]
    first_strip_only[of "[]" 0 "[]" "''(1000000000, 1000000000, 1000000000)''" "''(3000000000,)''"]
  by blast

end
